theory Spec2Isabelle
  imports
    Main
    "HOL-Library.Word"
    "HOL-Library.Multiset"
    "HOL-Library.Char_ord"
    "HOL-Library.List_Lexorder"
    "HOL-Library.Sublist"
begin

section \<open>The ls command of core/commands/ls.go\<close>

text \<open>
  A shallow embedding of \<^verbatim>\<open>LsCmd.Run\<close>, \<^verbatim>\<open>LsCmd.PostRun\<close>, the text encoder and
  \<^verbatim>\<open>tabularOutput\<close>. Go strings are byte strings: \<^typ>\<open>string\<close>, ordered byte-wise
  and lexicographically by the instances of \<open>HOL-Library.Char_ord\<close> and
  \<open>HOL-Library.List_Lexorder\<close>, which is the order of Go's \<^verbatim>\<open><\<close> on strings.
\<close>

subsection \<open>Data model\<close>

text \<open>
  \<^verbatim>\<open>unixfs_pb.Data_DataType\<close> (boxo): the protobuf enumeration Raw = 0, Directory = 1,
  File = 2, Metadata = 3, Symlink = 4, HAMTShard = 5, under the names \<^verbatim>\<open>unixfs.TRaw\<close>, ...
  that ls.go uses. The zero value of the type is \<open>TRaw\<close>.
\<close>

datatype Data_DataType = TRaw | TDirectory | TFile | TMetadata | TSymlink | THAMTShard

type_synonym Cid = string
type_synonym Path = string
type_synonym FileMode = "32 word"
type_synonym Time = int
type_synonym FileType = "32 word"

datatype error = Error string

text \<open>\<^verbatim>\<open>LsLink\<close>, lines 24-31.\<close>

record LsLink =
  Name :: string
  Hash :: string
  Size :: "64 word"
  Type :: Data_DataType
  Target :: string
  Mode :: FileMode
  ModTime :: Time

text \<open>\<^verbatim>\<open>LsObject\<close>, lines 35-38; its field \<^verbatim>\<open>Hash\<close> is \<open>ObjectHash\<close> here.\<close>

record LsObject =
  ObjectHash :: string
  Links :: "LsLink list"

text \<open>\<^verbatim>\<open>LsOutput\<close>, lines 42-44.\<close>

record LsOutput =
  Objects :: "LsObject list"

text \<open>
  \<^verbatim>\<open>iface.DirEntry\<close> (core/coreiface), by the fields that \<^verbatim>\<open>Run\<close> reads. Its \<^verbatim>\<open>Type\<close>
  is an \<^verbatim>\<open>iface.FileType\<close>, a 32-bit code.
\<close>

record DirEntry =
  EntryName :: string
  EntryCid :: Cid
  EntrySize :: "64 word"
  EntryType :: FileType
  EntryTarget :: string
  EntryMode :: FileMode
  EntryModTime :: Time

text \<open>
  \<^verbatim>\<open>cmds.Request\<close>, by the two fields that ls.go reads. An option value is an
  \<^verbatim>\<open>interface{}\<close>; the type assertion \<^verbatim>\<open>.(bool)\<close> with its second result dropped
  gives \<open>False\<close> for a missing option and for one that holds no bool.
\<close>

datatype optval = BoolVal bool | OtherVal

record Request =
  Arguments :: "string list"
  Options :: "string \<rightharpoonup> optval"

definition lsHeadersOptionNameTime :: string where
  "lsHeadersOptionNameTime = ''headers''"

definition lsResolveTypeOptionName :: string where
  "lsResolveTypeOptionName = ''resolve-type''"

definition lsSizeOptionName :: string where
  "lsSizeOptionName = ''size''"

definition lsStreamOptionName :: string where
  "lsStreamOptionName = ''stream''"

definition optBool :: "Request \<Rightarrow> string \<Rightarrow> bool" where
  "optBool req name = (case Options req name of Some (BoolVal b) \<Rightarrow> b | _ \<Rightarrow> False)"

subsection \<open>Collaborators\<close>

text \<open>
  Everything ls.go calls that is not in ls.go and not in Go's standard library is a field of
  the environment:
  \<^item> \<open>GetApi\<close>: \<^verbatim>\<open>cmdenv.GetApi\<close>; on success the traversal \<^verbatim>\<open>api.Unixfs().Ls\<close>, which for a
    path and the resolve-children option sends entries on the channel, closes it, and
    returns its terminal error (\<open>None\<close> is \<^verbatim>\<open>nil\<close>);
  \<^item> \<open>ParseBodyArgs\<close>: \<^verbatim>\<open>req.ParseBodyArgs\<close>; on success the arguments of the request
    afterwards;
  \<^item> \<open>GetCidEncoder\<close>: \<^verbatim>\<open>cmdenv.GetCidEncoder\<close>; on success \<^verbatim>\<open>enc.Encode\<close>;
  \<^item> \<open>PathOrCidPath\<close>: \<^verbatim>\<open>cmdutils.PathOrCidPath\<close>;
  \<^item> \<open>Emit\<close>: what \<^verbatim>\<open>res.Emit\<close> returns for a value, given the values it was handed
    before;
  \<^item> \<open>iface_TFile\<close>, \<open>iface_TDirectory\<close>, \<open>iface_TSymlink\<close>: the constants of
    core/coreiface, whose declaration is not in ls.go;
  \<^item> \<open>EscNonPrint\<close>: \<^verbatim>\<open>cmdenv.EscNonPrint\<close>;
  \<^item> \<open>Tabwriter\<close>: the bytes that a \<^verbatim>\<open>tabwriter.NewWriter(w, minwidth, 2, 1, ' ', 0)\<close>
    passes to \<^verbatim>\<open>w\<close> at \<^verbatim>\<open>Flush\<close>, for \<open>minwidth\<close> and the bytes written to it.
\<close>

record Env =
  GetApi :: "error + (Path \<Rightarrow> bool \<Rightarrow> DirEntry list \<times> error option)"
  ParseBodyArgs :: "Request \<Rightarrow> error + string list"
  GetCidEncoder :: "Request \<Rightarrow> error + (Cid \<Rightarrow> string)"
  PathOrCidPath :: "string \<Rightarrow> error + Path"
  Emit :: "LsOutput list \<Rightarrow> LsOutput \<Rightarrow> error option"
  iface_TFile :: FileType
  iface_TDirectory :: FileType
  iface_TSymlink :: FileType
  EscNonPrint :: "string \<Rightarrow> string"
  Tabwriter :: "nat \<Rightarrow> string \<Rightarrow> string"

subsection \<open>Run: classification of an entry, lines 156-175\<close>

text \<open>
  The \<^verbatim>\<open>switch\<close> on \<^verbatim>\<open>link.Type\<close> has three cases and no default: \<^verbatim>\<open>ftype\<close> keeps its
  zero value otherwise.
\<close>

definition ftypeOf :: "Env \<Rightarrow> FileType \<Rightarrow> Data_DataType" where
  "ftypeOf E t =
     (if t = iface_TFile E then TFile
      else if t = iface_TDirectory E then TDirectory
      else if t = iface_TSymlink E then TSymlink
      else TRaw)"

definition lsLinkOf :: "Env \<Rightarrow> (Cid \<Rightarrow> string) \<Rightarrow> DirEntry \<Rightarrow> LsLink" where
  "lsLinkOf E enc link =
     \<lparr> Name = EntryName link,
       Hash = enc (EntryCid link),
       Size = EntrySize link,
       Type = ftypeOf E (EntryType link),
       Target = EntryTarget link,
       Mode = EntryMode link,
       ModTime = EntryModTime link \<rparr>"

subsection \<open>Run: sorting, lines 122-124\<close>

text \<open>\<^verbatim>\<open>strings.Compare\<close> of Go's standard library.\<close>

definition Compare :: "string \<Rightarrow> string \<Rightarrow> int" where
  "Compare a b = (if a = b then 0 else if a < b then - 1 else 1)"

text \<open>
  \<^verbatim>\<open>slices.SortFunc\<close> of Go's standard library sorts in ascending order by \<open>cmp\<close> and is
  not guaranteed to be stable. It is an insertion sort here; the order it gives to
  elements that compare equal is this model's, and nothing below relies on it.
\<close>

fun insertFunc :: "('a \<Rightarrow> 'a \<Rightarrow> int) \<Rightarrow> 'a \<Rightarrow> 'a list \<Rightarrow> 'a list" where
  "insertFunc cmp x [] = [x]"
| "insertFunc cmp x (y # ys) =
     (if cmp x y < 0 then x # y # ys else y # insertFunc cmp x ys)"

fun SortFunc :: "('a \<Rightarrow> 'a \<Rightarrow> int) \<Rightarrow> 'a list \<Rightarrow> 'a list" where
  "SortFunc cmp [] = []"
| "SortFunc cmp (x # xs) = insertFunc cmp x (SortFunc cmp xs)"

definition byName :: "LsLink \<Rightarrow> LsLink \<Rightarrow> int" where
  "byName a b = Compare (Name a) (Name b)"

subsection \<open>Run: the two policies, lines 96-136\<close>

text \<open>
  The state of a run: \<open>emitted\<close>, the values handed to \<^verbatim>\<open>res.Emit\<close> (by \<^verbatim>\<open>Emit\<close> or
  \<^verbatim>\<open>EmitOnce\<close>), oldest first; \<open>lsCalls\<close>, the calls of \<^verbatim>\<open>api.Unixfs().Ls\<close> with the path
  and the resolve-children option of each; and the variables that the closures of the
  non-streaming branch capture, \<^verbatim>\<open>output\<close> (\<open>outputObjects\<close>) and \<open>outputLinks\<close>.
\<close>

record RunState =
  emitted :: "LsOutput list"
  lsCalls :: "(Path \<times> bool) list"
  outputObjects :: "LsObject list"
  outputLinks :: "LsLink list"

definition emit :: "Env \<Rightarrow> LsOutput \<Rightarrow> RunState \<Rightarrow> RunState \<times> error option" where
  "emit E v s = (s\<lparr>emitted := emitted s @ [v]\<rparr>, Emit E (emitted s) v)"

text \<open>\<^verbatim>\<open>processDir()\<close>: in the non-streaming branch a fresh \<^verbatim>\<open>outputLinks\<close> for each path.\<close>

definition processDir :: "bool \<Rightarrow> RunState \<Rightarrow> RunState" where
  "processDir stream s = (if stream then s else s\<lparr>outputLinks := []\<rparr>)"

definition processLink ::
  "Env \<Rightarrow> bool \<Rightarrow> string \<Rightarrow> LsLink \<Rightarrow> RunState \<Rightarrow> RunState \<times> error option" where
  "processLink E stream path link s =
     (if stream
      then emit E \<lparr>Objects = [\<lparr>ObjectHash = path, Links = [link]\<rparr>]\<rparr> s
      else (s\<lparr>outputLinks := outputLinks s @ [link]\<rparr>, None))"

definition dirDone :: "bool \<Rightarrow> string list \<Rightarrow> nat \<Rightarrow> RunState \<Rightarrow> RunState" where
  "dirDone stream paths i s =
     (if stream then s
      else s\<lparr>outputObjects := (outputObjects s)
             [i := \<lparr>ObjectHash = paths ! i, Links = SortFunc byName (outputLinks s)\<rparr>]\<rparr>)"

text \<open>The closure \<^verbatim>\<open>done\<close>, lines 108 and 133-135; \<^verbatim>\<open>cmds.EmitOnce\<close> hands its value to \<^verbatim>\<open>res.Emit\<close>.\<close>

definition done' :: "Env \<Rightarrow> bool \<Rightarrow> RunState \<Rightarrow> RunState \<times> error option" where
  "done' E stream s = (if stream then (s, None) else emit E \<lparr>Objects = outputObjects s\<rparr> s)"

subsection \<open>Run: the loops, lines 141-185\<close>

text \<open>\<^verbatim>\<open>for link := range results\<close>, over the entries the traversal sent.\<close>

fun forLinks ::
  "Env \<Rightarrow> (Cid \<Rightarrow> string) \<Rightarrow> bool \<Rightarrow> string \<Rightarrow> DirEntry list \<Rightarrow> RunState
     \<Rightarrow> RunState \<times> error option" where
  "forLinks E enc stream path [] s = (s, None)"
| "forLinks E enc stream path (link # results) s =
     (case processLink E stream path (lsLinkOf E enc link) s of
        (s', Some err) \<Rightarrow> (s', Some err)
      | (s', None) \<Rightarrow> forLinks E enc stream path results s')"

text \<open>
  \<^verbatim>\<open>for i, fpath := range paths\<close>, over the pairs of index and path that are left. The
  result \<open>None\<close> is the end of the loop; \<open>Some err\<close> is a \<^verbatim>\<open>return err\<close> in its body.
\<close>

fun forPaths ::
  "Env \<Rightarrow> (Path \<Rightarrow> bool \<Rightarrow> DirEntry list \<times> error option) \<Rightarrow> (Cid \<Rightarrow> string) \<Rightarrow> bool
     \<Rightarrow> bool \<Rightarrow> bool \<Rightarrow> string list \<Rightarrow> (nat \<times> string) list \<Rightarrow> RunState
     \<Rightarrow> RunState \<times> error option" where
  "forPaths E ls enc stream resolveSize resolveType paths [] s = (s, None)"
| "forPaths E ls enc stream resolveSize resolveType paths ((i, fpath) # rest) s =
     (case PathOrCidPath E fpath of
        Inl err \<Rightarrow> (s, Some err)
      | Inr pth \<Rightarrow>
          (let resolveChildren = (resolveSize \<or> resolveType);
               s1 = s\<lparr>lsCalls := lsCalls s @ [(pth, resolveChildren)]\<rparr>;
               (results, lsErr) = ls pth resolveChildren;
               s2 = processDir stream s1
           in case forLinks E enc stream (paths ! i) results s2 of
                (s3, Some err) \<Rightarrow> (s3, Some err)
              | (s3, None) \<Rightarrow>
                  (case lsErr of
                     Some err \<Rightarrow> (s3, Some err)
                   | None \<Rightarrow>
                       forPaths E ls enc stream resolveSize resolveType paths rest
                         (dirDone stream paths i s3))))"

text \<open>\<^verbatim>\<open>make([]LsObject, n)\<close>: \<open>n\<close> zero values.\<close>

definition zeroLsObject :: LsObject where
  "zeroLsObject = \<lparr>ObjectHash = [], Links = []\<rparr>"

definition initState :: RunState where
  "initState = \<lparr>emitted = [], lsCalls = [], outputObjects = [], outputLinks = []\<rparr>"

definition LsCmd_Run :: "Env \<Rightarrow> Request \<Rightarrow> RunState \<times> error option" where
  "LsCmd_Run E req =
     (case GetApi E of
        Inl err \<Rightarrow> (initState, Some err)
      | Inr ls \<Rightarrow>
          (let resolveType = optBool req lsResolveTypeOptionName;
               resolveSize = optBool req lsSizeOptionName;
               stream = optBool req lsStreamOptionName
           in case ParseBodyArgs E req of
                Inl err \<Rightarrow> (initState, Some err)
              | Inr paths \<Rightarrow>
                  (case GetCidEncoder E (req\<lparr>Arguments := paths\<rparr>) of
                     Inl err \<Rightarrow> (initState, Some err)
                   | Inr enc \<Rightarrow>
                       (let s0 = (if stream then initState
                                  else initState\<lparr>outputObjects := replicate (length paths) zeroLsObject\<rparr>)
                        in case forPaths E ls enc stream resolveSize resolveType paths
                                  (enumerate 0 paths) s0 of
                             (s, Some err) \<Rightarrow> (s, Some err)
                           | (s, None) \<Rightarrow> done' E stream s))))"

subsection \<open>Rendering: tabularOutput, lines 218-277\<close>

definition TAB :: string where
  "TAB = [CHR 0x09]"

definition NL :: string where
  "NL = [CHR 0x0A]"

text \<open>The verb \<^verbatim>\<open>%v\<close> of Go's \<^verbatim>\<open>fmt\<close> on a \<^verbatim>\<open>uint64\<close>: its decimal digits.\<close>

function FormatUint :: "nat \<Rightarrow> string" where
  "FormatUint n =
     (if n < 10 then [''0123456789'' ! n]
      else FormatUint (n div 10) @ [''0123456789'' ! (n mod 10)])"
  by pat_completeness auto
termination
  by (relation "measure (\<lambda>n. n)") auto

text \<open>
  The body of \<^verbatim>\<open>for _, link := range object.Links\<close>, lines 254-273: the bytes that
  \<^verbatim>\<open>fmt.Fprintf(tw, s, link.Hash, link.Size, cmdenv.EscNonPrint(link.Name))\<close> writes for
  the format \<^verbatim>\<open>s\<close> that the \<^verbatim>\<open>switch\<close> chose. The formats with \<^verbatim>\<open>%[1]s\<close> and \<^verbatim>\<open>%[3]s\<close>
  leave the second operand out.
\<close>

definition fprintLink :: "Env \<Rightarrow> bool \<Rightarrow> LsLink \<Rightarrow> string" where
  "fprintLink E size' link =
     (if Type link = TDirectory \<or> Type link = THAMTShard \<or> Type link = TMetadata
      then (if size'
            then Hash link @ TAB @ ''-'' @ TAB @ EscNonPrint E (Name link) @ ''/'' @ NL
            else Hash link @ TAB @ EscNonPrint E (Name link) @ ''/'' @ NL)
      else (if size'
            then Hash link @ TAB @ FormatUint (unat (Size link)) @ TAB
                   @ EscNonPrint E (Name link) @ NL
            else Hash link @ TAB @ EscNonPrint E (Name link) @ NL))"

text \<open>
  \<^verbatim>\<open>for _, object := range out.Objects\<close>, lines 235-274: the bytes written to the
  tabwriter and the value of \<^verbatim>\<open>lastObjectHash\<close> after the loop.
\<close>

fun forObjects ::
  "Env \<Rightarrow> bool \<Rightarrow> bool \<Rightarrow> bool \<Rightarrow> bool \<Rightarrow> LsObject list \<Rightarrow> string \<Rightarrow> string \<times> string" where
  "forObjects E headers size' multipleFolders ignoreBreaks [] lastObjectHash =
     ([], lastObjectHash)"
| "forObjects E headers size' multipleFolders ignoreBreaks (object # objects) lastObjectHash =
     (let break = (\<not> ignoreBreaks \<and> ObjectHash object \<noteq> lastObjectHash);
          label = (if break \<and> multipleFolders
                   then (if lastObjectHash \<noteq> [] then NL else []) @ ObjectHash object @ '':'' @ NL
                   else []);
          header = (if break \<and> headers
                    then (if size' then ''Hash'' @ TAB @ ''Size'' @ TAB @ ''Name''
                          else ''Hash'' @ TAB @ ''Name'') @ NL
                    else []);
          lastObjectHash' = (if break then ObjectHash object else lastObjectHash);
          rows = concat (map (fprintLink E size') (Links object));
          (written, last) =
             forObjects E headers size' multipleFolders ignoreBreaks objects lastObjectHash'
      in (label @ header @ rows @ written, last))"

text \<open>
  \<^verbatim>\<open>tabularOutput\<close> up to its last two lines: the bytes written to the tabwriter
  \<^verbatim>\<open>tw\<close> and the value of \<^verbatim>\<open>lastObjectHash\<close> then.
\<close>

definition tabularWritten :: "Env \<Rightarrow> Request \<Rightarrow> LsOutput \<Rightarrow> string \<Rightarrow> bool \<Rightarrow> string \<times> string" where
  "tabularWritten E req out lastObjectHash ignoreBreaks =
     (let headers = optBool req lsHeadersOptionNameTime;
          size' = optBool req lsSizeOptionName;
          multipleFolders = (length (Arguments req) > 1)
      in forObjects E headers size' multipleFolders ignoreBreaks (Objects out) lastObjectHash)"

definition minTabWidth :: "Request \<Rightarrow> nat" where
  "minTabWidth req = (if optBool req lsStreamOptionName then 10 else 1)"

text \<open>
  \<^verbatim>\<open>tabularOutput\<close>: the bytes that reach \<^verbatim>\<open>w\<close> when \<^verbatim>\<open>tw.Flush()\<close> runs, and the
  string returned.
\<close>

definition tabularOutput :: "Env \<Rightarrow> Request \<Rightarrow> LsOutput \<Rightarrow> string \<Rightarrow> bool \<Rightarrow> string \<times> string" where
  "tabularOutput E req out lastObjectHash ignoreBreaks =
     (let (written, last) = tabularWritten E req out lastObjectHash ignoreBreaks
      in (Tabwriter E (minTabWidth req) written, last))"

subsection \<open>PostRun and the text encoder, lines 187-214\<close>

text \<open>
  The loop of \<^verbatim>\<open>PostRun\<close> over the values that \<^verbatim>\<open>res.Next\<close> returns, and then over its
  error (\<open>None\<close> is \<^verbatim>\<open>io.EOF\<close>): the bytes written to \<^verbatim>\<open>os.Stdout\<close> and the error returned.
\<close>

fun forNext :: "Env \<Rightarrow> Request \<Rightarrow> LsOutput list \<Rightarrow> error option \<Rightarrow> string \<Rightarrow> string \<times> error option" where
  "forNext E req [] err lastObjectHash = ([], err)"
| "forNext E req (out # outs) err lastObjectHash =
     (let (text, lastObjectHash') = tabularOutput E req out lastObjectHash False;
          (texts, r) = forNext E req outs err lastObjectHash'
      in (text @ texts, r))"

definition LsCmd_PostRun :: "Env \<Rightarrow> Request \<Rightarrow> LsOutput list \<times> error option \<Rightarrow> string \<times> error option" where
  "LsCmd_PostRun E req res = forNext E req (fst res) (snd res) []"

text \<open>The text encoder: the bytes written to \<^verbatim>\<open>w\<close>; it returns \<^verbatim>\<open>nil\<close>.\<close>

definition LsCmd_Encoders_Text :: "Env \<Rightarrow> Request \<Rightarrow> LsOutput \<Rightarrow> string" where
  "LsCmd_Encoders_Text E req out =
     (let ignoreBreaks = optBool req lsStreamOptionName
      in fst (tabularOutput E req out [] ignoreBreaks))"

subsection \<open>A concrete environment\<close>

text \<open>
  An environment, a traversal and requests on which the definitions above are evaluated:
  the path \<^verbatim>\<open>a\<close> lists a file \<^verbatim>\<open>z\<close> and a directory \<^verbatim>\<open>m\<close>, the path \<^verbatim>\<open>b\<close> an entry
  \<^verbatim>\<open>k\<close> with the unrecognised type code 9, the path \<^verbatim>\<open>e\<close> is an empty directory, and
  every other path sends one entry and then fails.
\<close>

definition exampleEntry :: "string \<Rightarrow> Cid \<Rightarrow> 64 word \<Rightarrow> FileType \<Rightarrow> DirEntry" where
  "exampleEntry n c sz t =
     \<lparr> EntryName = n, EntryCid = c, EntrySize = sz, EntryType = t,
       EntryTarget = [], EntryMode = 420, EntryModTime = 1700000000 \<rparr>"

definition exampleLs :: "Path \<Rightarrow> bool \<Rightarrow> DirEntry list \<times> error option" where
  "exampleLs pth resolveChildren =
     (if pth = ''/ipfs/a''
      then ([exampleEntry ''z'' ''QmZ'' 1 1, exampleEntry ''m'' ''QmM'' 2 2], None)
      else if pth = ''/ipfs/b'' then ([exampleEntry ''k'' ''QmK'' 30 9], None)
      else if pth = ''/ipfs/e'' then ([], None)
      else ([exampleEntry ''p'' ''QmP'' 5 1], Some (Error ''no link'')))"

definition exampleEnv :: Env where
  "exampleEnv =
     \<lparr> GetApi = Inr exampleLs,
       ParseBodyArgs = (\<lambda>req. Inr (Arguments req)),
       GetCidEncoder = (\<lambda>req. Inr (\<lambda>c. c)),
       PathOrCidPath = (\<lambda>p. if p = [] then Inl (Error ''empty path'') else Inr (''/ipfs/'' @ p)),
       Emit = (\<lambda>h v. None),
       iface_TFile = 1,
       iface_TDirectory = 2,
       iface_TSymlink = 3,
       EscNonPrint = (\<lambda>n. n),
       Tabwriter = (\<lambda>w t. t) \<rparr>"

definition exampleRequest :: "string list \<Rightarrow> bool \<Rightarrow> bool \<Rightarrow> Request" where
  "exampleRequest args headers stream =
     \<lparr> Arguments = args,
       Options = [lsHeadersOptionNameTime \<mapsto> BoolVal headers,
                  lsResolveTypeOptionName \<mapsto> BoolVal True,
                  lsSizeOptionName \<mapsto> BoolVal True,
                  lsStreamOptionName \<mapsto> BoolVal stream] \<rparr>"

lemmas example_defs =
  exampleEnv_def exampleRequest_def exampleLs_def exampleEntry_def optBool_def
  lsHeadersOptionNameTime_def lsResolveTypeOptionName_def lsSizeOptionName_def
  lsStreamOptionName_def

section \<open>Properties\<close>

subsection \<open>Sorting\<close>

lemma Compare_neg_iff: "Compare a b < 0 \<longleftrightarrow> a < b"
  by (auto simp: Compare_def)

lemma mset_insertFunc: "mset (insertFunc cmp x xs) = add_mset x (mset xs)"
  by (induction xs) auto

lemma mset_SortFunc: "mset (SortFunc cmp xs) = mset xs"
  by (induction xs) (auto simp: mset_insertFunc)

lemma set_insertFunc: "set (insertFunc cmp x xs) = insert x (set xs)"
  by (induction xs) auto

lemma sorted_insertFunc_byName:
  "sorted (map Name xs) \<Longrightarrow> sorted (map Name (insertFunc byName x xs))"
  by (induction xs) (auto simp: byName_def Compare_neg_iff set_insertFunc)

lemma sorted_SortFunc_byName: "sorted (map Name (SortFunc byName xs))"
  by (induction xs) (auto simp: sorted_insertFunc_byName)

subsection \<open>The loops of Run\<close>

lemma forLinks_batch:
  "forLinks E enc False path results s =
     (s\<lparr>outputLinks := outputLinks s @ map (lsLinkOf E enc) results\<rparr>, None)"
  by (induction results arbitrary: s) (auto simp: processLink_def)

lemma forLinks_stream:
  "\<forall>h v. Emit E h v = None \<Longrightarrow>
   forLinks E enc True path results s =
     (s\<lparr>emitted := emitted s
          @ map (\<lambda>link. \<lparr>Objects = [\<lparr>ObjectHash = path, Links = [lsLinkOf E enc link]\<rparr>]\<rparr>) results\<rparr>,
      None)"
  by (induction results arbitrary: s) (auto simp: processLink_def emit_def)

lemma forPaths_append:
  "forPaths E ls enc stream rs rt paths (xs @ ys) s =
     (case forPaths E ls enc stream rs rt paths xs s of
        (s', Some err) \<Rightarrow> (s', Some err)
      | (s', None) \<Rightarrow> forPaths E ls enc stream rs rt paths ys s')"
proof (induction xs arbitrary: s)
  case Nil
  show ?case by simp
next
  case (Cons x xs)
  obtain i fpath where x: "x = (i, fpath)" by (cases x)
  show ?case
    by (simp add: x Cons.IH Let_def split: sum.splits prod.splits option.splits)
qed

lemma forPaths_batch_ok:
  assumes "\<forall>p\<in>set ps. \<exists>pth. PathOrCidPath E p = Inr pth \<and> snd (ls pth (rs \<or> rt)) = None"
    and "drop k paths = ps @ post"
    and "length (outputObjects s) = length paths"
  shows "\<exists>s'. forPaths E ls enc False rs rt paths (enumerate k ps) s = (s', None)
           \<and> emitted s' = emitted s
           \<and> lsCalls s' = lsCalls s @ map (\<lambda>p. (projr (PathOrCidPath E p), rs \<or> rt)) ps
           \<and> outputObjects s' = take k (outputObjects s)
                @ map (\<lambda>p. \<lparr>ObjectHash = p, Links = SortFunc byName (map (lsLinkOf E enc)
                         (fst (ls (projr (PathOrCidPath E p)) (rs \<or> rt))))\<rparr>) ps
                @ drop (k + length ps) (outputObjects s)"
  using assms
proof (induction ps arbitrary: k s)
  case Nil
  then show ?case by simp
next
  case (Cons p ps)
  from Cons.prems(2) have k: "k < length paths"
    by (cases "k < length paths") simp_all
  from Cons.prems(2) Cons_nth_drop_Suc [OF k] have pk: "paths ! k = p" and ps: "drop (Suc k) paths = ps @ post"
    by simp_all
  from Cons.prems(1) obtain pth results where
    pth: "PathOrCidPath E p = Inr pth" and ls: "ls pth (rs \<or> rt) = (results, None)"
    by (metis list.set_intros(1) prod.collapse)
  define s3 where "s3 = dirDone False paths k
      ((processDir False (s\<lparr>lsCalls := lsCalls s @ [(pth, rs \<or> rt)]\<rparr>))
         \<lparr>outputLinks := map (lsLinkOf E enc) results\<rparr>)"
  have step: "forPaths E ls enc False rs rt paths (enumerate k (p # ps)) s
      = forPaths E ls enc False rs rt paths (enumerate (Suc k) ps) s3"
    using ls by (simp add: pth forLinks_batch s3_def processDir_def)
  have len: "length (outputObjects s3) = length paths"
    using Cons.prems(3) by (simp add: s3_def dirDone_def processDir_def)
  from Cons.prems(1) have ok: "\<forall>p\<in>set ps. \<exists>pth. PathOrCidPath E p = Inr pth \<and> snd (ls pth (rs \<or> rt)) = None"
    by simp
  from Cons.IH [OF ok ps len] obtain s' where
    r: "forPaths E ls enc False rs rt paths (enumerate (Suc k) ps) s3 = (s', None)"
    and e: "emitted s' = emitted s3"
    and c: "lsCalls s' = lsCalls s3 @ map (\<lambda>p. (projr (PathOrCidPath E p), rs \<or> rt)) ps"
    and o: "outputObjects s' = take (Suc k) (outputObjects s3)
                @ map (\<lambda>p. \<lparr>ObjectHash = p, Links = SortFunc byName (map (lsLinkOf E enc)
                         (fst (ls (projr (PathOrCidPath E p)) (rs \<or> rt))))\<rparr>) ps
                @ drop (Suc k + length ps) (outputObjects s3)"
    by blast
  have e3: "emitted s3 = emitted s" and c3: "lsCalls s3 = lsCalls s @ [(pth, rs \<or> rt)]"
    by (simp_all add: s3_def dirDone_def processDir_def)
  have o3: "take (Suc k) (outputObjects s3) = take k (outputObjects s)
      @ [\<lparr>ObjectHash = p, Links = SortFunc byName (map (lsLinkOf E enc) results)\<rparr>]"
    using k Cons.prems(3) by (simp add: s3_def dirDone_def processDir_def pk take_Suc_conv_app_nth)
  have d3: "drop (Suc k + length ps) (outputObjects s3) = drop (Suc k + length ps) (outputObjects s)"
    by (simp add: s3_def dirDone_def processDir_def)
  show ?case
    using step r e c o e3 c3 o3 d3 pth ls by simp
qed

lemma forPaths_stream_ok:
  assumes "\<forall>h v. Emit E h v = None"
    and "\<forall>p\<in>set ps. \<exists>pth. PathOrCidPath E p = Inr pth \<and> snd (ls pth (rs \<or> rt)) = None"
    and "drop k paths = ps @ post"
  shows "\<exists>s'. forPaths E ls enc True rs rt paths (enumerate k ps) s = (s', None)
           \<and> emitted s' = emitted s @ concat (map (\<lambda>p.
                 map (\<lambda>link. \<lparr>Objects = [\<lparr>ObjectHash = p, Links = [lsLinkOf E enc link]\<rparr>]\<rparr>)
                   (fst (ls (projr (PathOrCidPath E p)) (rs \<or> rt)))) ps)
           \<and> lsCalls s' = lsCalls s @ map (\<lambda>p. (projr (PathOrCidPath E p), rs \<or> rt)) ps"
  using assms(2,3)
proof (induction ps arbitrary: k s)
  case Nil
  then show ?case by simp
next
  case (Cons p ps)
  from Cons.prems(2) have k: "k < length paths"
    by (cases "k < length paths") simp_all
  from Cons.prems(2) Cons_nth_drop_Suc [OF k] have pk: "paths ! k = p" and ps: "drop (Suc k) paths = ps @ post"
    by simp_all
  from Cons.prems(1) obtain pth results where
    pth: "PathOrCidPath E p = Inr pth" and ls: "ls pth (rs \<or> rt) = (results, None)"
    by (metis list.set_intros(1) prod.collapse)
  define s3 where "s3 = s\<lparr>lsCalls := lsCalls s @ [(pth, rs \<or> rt)],
     emitted := emitted s @ map (\<lambda>link. \<lparr>Objects = [\<lparr>ObjectHash = p, Links = [lsLinkOf E enc link]\<rparr>]\<rparr>) results\<rparr>"
  have step: "forPaths E ls enc True rs rt paths (enumerate k (p # ps)) s
      = forPaths E ls enc True rs rt paths (enumerate (Suc k) ps) s3"
    using ls by (simp add: pth forLinks_stream [OF assms(1)] s3_def processDir_def dirDone_def pk)
  from Cons.prems(1) have ok: "\<forall>p\<in>set ps. \<exists>pth. PathOrCidPath E p = Inr pth \<and> snd (ls pth (rs \<or> rt)) = None"
    by simp
  from Cons.IH [OF ok ps, of s3] obtain s' where
    r: "forPaths E ls enc True rs rt paths (enumerate (Suc k) ps) s3 = (s', None)"
    and e: "emitted s' = emitted s3 @ concat (map (\<lambda>p.
                 map (\<lambda>link. \<lparr>Objects = [\<lparr>ObjectHash = p, Links = [lsLinkOf E enc link]\<rparr>]\<rparr>)
                   (fst (ls (projr (PathOrCidPath E p)) (rs \<or> rt)))) ps)"
    and c: "lsCalls s' = lsCalls s3 @ map (\<lambda>p. (projr (PathOrCidPath E p), rs \<or> rt)) ps"
    by blast
  show ?case
    using step r e c pth ls by (simp add: s3_def)
qed

lemma forLinks_lsCalls: "lsCalls (fst (forLinks E enc stream path results s)) = lsCalls s"
  by (induction results arbitrary: s)
     (auto simp: processLink_def emit_def split: prod.splits option.splits)

lemma forLinks_batch_emitted: "emitted (fst (forLinks E enc False path results s)) = emitted s"
  by (simp add: forLinks_batch)

lemma forLinks_stream_None:
  "forLinks E enc True path results s = (s', None) \<Longrightarrow>
   emitted s' = emitted s
      @ map (\<lambda>link. \<lparr>Objects = [\<lparr>ObjectHash = path, Links = [lsLinkOf E enc link]\<rparr>]\<rparr>) results"
proof (induction results arbitrary: s)
  case Nil
  then show ?case by simp
next
  case (Cons link results)
  then show ?case
    by (auto simp: processLink_def emit_def split: option.splits)
qed

lemma forPaths_lsCalls:
  "\<exists>n\<le>length ps.
     lsCalls (fst (forPaths E ls enc stream rs rt paths (enumerate k ps) s))
       = lsCalls s @ map (\<lambda>p. (projr (PathOrCidPath E p), rs \<or> rt)) (take n ps)
     \<and> (snd (forPaths E ls enc stream rs rt paths (enumerate k ps) s) = None \<longrightarrow> n = length ps)"
proof (induction ps arbitrary: k s)
  case Nil
  show ?case by simp
next
  case (Cons p ps)
  define R where "R = forPaths E ls enc stream rs rt paths (enumerate k (p # ps)) s"
  define f where "f = (\<lambda>p. (projr (PathOrCidPath E p), rs \<or> rt))"
  have "\<exists>n\<le>length (p # ps).
     lsCalls (fst R) = lsCalls s @ map f (take n (p # ps))
     \<and> (snd R = None \<longrightarrow> n = length (p # ps))"
  proof (cases "PathOrCidPath E p")
    case (Inl err)
    then have R: "R = (s, Some err)"
      by (simp add: R_def)
    have "0 \<le> length (p # ps) \<and> lsCalls (fst R) = lsCalls s @ map f (take 0 (p # ps))
        \<and> (snd R = None \<longrightarrow> 0 = length (p # ps))"
      by (simp add: R)
    then show ?thesis by (rule exI)
  next
    case (Inr pth)
    obtain results lsErr where ls: "ls pth (rs \<or> rt) = (results, lsErr)"
      by (cases "ls pth (rs \<or> rt)")
    define s2 where "s2 = processDir stream (s\<lparr>lsCalls := lsCalls s @ [(pth, rs \<or> rt)]\<rparr>)"
    obtain s3 r where fl: "forLinks E enc stream (paths ! k) results s2 = (s3, r)"
      by (cases "forLinks E enc stream (paths ! k) results s2")
    define s4 where "s4 = dirDone stream paths k s3"
    define R' where "R' = forPaths E ls enc stream rs rt paths (enumerate (Suc k) ps) s4"
    have R: "R = (case r of Some err \<Rightarrow> (s3, Some err)
                 | None \<Rightarrow> (case lsErr of Some err \<Rightarrow> (s3, Some err) | None \<Rightarrow> R'))"
      using fl by (simp add: R_def R'_def s2_def s4_def Inr ls split: option.splits)
    have "lsCalls (fst (forLinks E enc stream (paths ! k) results s2)) = lsCalls s2"
      by (rule forLinks_lsCalls)
    then have "lsCalls s3 = lsCalls s2"
      by (simp add: fl)
    moreover have "lsCalls s2 = lsCalls s @ [(pth, rs \<or> rt)]"
      by (simp add: s2_def processDir_def)
    ultimately have c3: "lsCalls s3 = lsCalls s @ [(pth, rs \<or> rt)]"
      by simp
    have fp: "f p = (pth, rs \<or> rt)"
      by (simp add: f_def Inr)
    have failed: ?thesis if R': "R = (s3, Some err)" for err
    proof -
      have "Suc 0 \<le> length (p # ps)
          \<and> lsCalls (fst R) = lsCalls s @ map f (take (Suc 0) (p # ps))
          \<and> (snd R = None \<longrightarrow> Suc 0 = length (p # ps))"
        by (simp add: R' c3 fp)
      then show ?thesis by (rule exI)
    qed
    show ?thesis
    proof (cases r)
      case (Some err)
      then have "R = (s3, Some err)" by (simp add: R)
      then show ?thesis by (rule failed)
    next
      case None
      show ?thesis
      proof (cases lsErr)
        case (Some err)
        with None have "R = (s3, Some err)" by (simp add: R)
        then show ?thesis by (rule failed)
      next
        case lsNone: None
        with None have step: "R = R'"
          by (simp add: R)
        have c4: "lsCalls s4 = lsCalls s @ [(pth, rs \<or> rt)]"
          using c3 by (simp add: s4_def dirDone_def)
        have "\<exists>n\<le>length ps. lsCalls (fst R') = lsCalls s4 @ map f (take n ps)
            \<and> (snd R' = None \<longrightarrow> n = length ps)"
          using Cons.IH [of "Suc k" s4] by (simp only: R'_def f_def)
        then obtain n where
          n: "n \<le> length ps"
          and c: "lsCalls (fst R') = lsCalls s4 @ map f (take n ps)"
          and e: "snd R' = None \<longrightarrow> n = length ps"
          by (elim exE conjE)
        have "Suc n \<le> length (p # ps)
            \<and> lsCalls (fst R) = lsCalls s @ map f (take (Suc n) (p # ps))
            \<and> (snd R = None \<longrightarrow> Suc n = length (p # ps))"
          using n c e by (simp add: step c4 fp)
        then show ?thesis by (rule exI)
      qed
    qed
  qed
  then show ?case by (simp only: R_def f_def)
qed

lemma forPaths_stream_None:
  assumes "forPaths E ls enc True rs rt paths (enumerate k ps) s = (s', None)"
    and "ps = drop k paths"
  shows "emitted s' = emitted s @ concat (map (\<lambda>p.
                 map (\<lambda>link. \<lparr>Objects = [\<lparr>ObjectHash = p, Links = [lsLinkOf E enc link]\<rparr>]\<rparr>)
                   (fst (ls (projr (PathOrCidPath E p)) (rs \<or> rt)))) ps)"
  using assms
proof (induction ps arbitrary: k s)
  case Nil
  then show ?case by simp
next
  case (Cons p ps)
  from Cons.prems(2) have k: "k < length paths"
    by (cases "k < length paths") simp_all
  from Cons.prems(2) Cons_nth_drop_Suc [OF k, symmetric] have pk: "paths ! k = p" and ps: "ps = drop (Suc k) paths"
    by simp_all
  from Cons.prems(1) obtain pth where pth: "PathOrCidPath E p = Inr pth"
    by (cases "PathOrCidPath E p") auto
  obtain results lsErr where ls: "ls pth (rs \<or> rt) = (results, lsErr)"
    by (cases "ls pth (rs \<or> rt)")
  define s2 where "s2 = s\<lparr>lsCalls := lsCalls s @ [(pth, rs \<or> rt)]\<rparr>"
  obtain s3 r where fl: "forLinks E enc True p results s2 = (s3, r)"
    by (cases "forLinks E enc True p results s2")
  from Cons.prems(1) have r: "r = None" and lsErr: "lsErr = None"
    and rest: "forPaths E ls enc True rs rt paths (enumerate (Suc k) ps) s3 = (s', None)"
    using pth ls fl
    by (auto simp: s2_def pk processDir_def dirDone_def split: option.splits)
  have e3: "emitted s3 = emitted s
      @ map (\<lambda>link. \<lparr>Objects = [\<lparr>ObjectHash = p, Links = [lsLinkOf E enc link]\<rparr>]\<rparr>) results"
    using forLinks_stream_None [of E enc p results s2 s3] fl r by (simp add: s2_def)
  show ?case
    using Cons.IH [OF rest ps] e3 pth ls by simp
qed


lemma forPaths_ls_error_batch:
  assumes "PathOrCidPath E fpath = Inr pth"
    and "ls pth (rs \<or> rt) = (results, Some err)"
  shows "\<exists>s'. forPaths E ls enc False rs rt paths ((i, fpath) # rest) s = (s', Some err)
           \<and> emitted s' = emitted s
           \<and> lsCalls s' = lsCalls s @ [(pth, rs \<or> rt)]"
  using assms by (simp add: forLinks_batch processDir_def)

lemma forPaths_ls_error_stream:
  assumes "\<forall>h v. Emit E h v = None"
    and "PathOrCidPath E fpath = Inr pth"
    and "ls pth (rs \<or> rt) = (results, Some err)"
  shows "\<exists>s'. forPaths E ls enc True rs rt paths ((i, fpath) # rest) s = (s', Some err)
           \<and> emitted s' = emitted s
                @ map (\<lambda>link. \<lparr>Objects = [\<lparr>ObjectHash = paths ! i, Links = [lsLinkOf E enc link]\<rparr>]\<rparr>)
                    results
           \<and> lsCalls s' = lsCalls s @ [(pth, rs \<or> rt)]"
  using assms(2,3) by (simp add: forLinks_stream [OF assms(1)] processDir_def)

lemma forPaths_abort_batch:
  assumes ok: "\<forall>p\<in>set pre. \<exists>pth. PathOrCidPath E p = Inr pth \<and> snd (ls pth (rs \<or> rt)) = None"
    and bad: "PathOrCidPath E bad = Inr pth"
    and err: "ls pth (rs \<or> rt) = (results, Some err)"
    and len: "length (outputObjects s) = length (pre @ bad # post)"
  shows "\<exists>s'. forPaths E ls enc False rs rt (pre @ bad # post) (enumerate 0 (pre @ bad # post)) s
              = (s', Some err)
           \<and> emitted s' = emitted s
           \<and> lsCalls s' = lsCalls s @ map (\<lambda>p. (projr (PathOrCidPath E p), rs \<or> rt)) (pre @ [bad])"
proof -
  define paths where "paths = pre @ bad # post"
  define rest where "rest = (length pre, bad) # enumerate (Suc (length pre)) post"
  have en: "enumerate 0 paths = enumerate 0 pre @ rest"
    by (simp add: paths_def rest_def enumerate_append_eq)
  have d0: "drop 0 paths = pre @ (bad # post)"
    by (simp add: paths_def)
  have len': "length (outputObjects s) = length paths"
    using len by (simp add: paths_def)
  from forPaths_batch_ok [where E = E and ls = ls and rs = rs and rt = rt and ps = pre
      and k = 0 and paths = paths and s = s and enc = enc and post = "bad # post", OF ok d0 len']
  obtain s1 where r1: "forPaths E ls enc False rs rt paths (enumerate 0 pre) s = (s1, None)"
    and e1: "emitted s1 = emitted s"
    and c1: "lsCalls s1 = lsCalls s @ map (\<lambda>p. (projr (PathOrCidPath E p), rs \<or> rt)) pre"
    by (elim exE conjE)
  from forPaths_ls_error_batch [where E = E and ls = ls and rs = rs and rt = rt and enc = enc
      and paths = paths and i = "length pre" and rest = "enumerate (Suc (length pre)) post"
      and s = s1, OF bad err]
  obtain s2 where r2: "forPaths E ls enc False rs rt paths rest s1 = (s2, Some err)"
    and e2: "emitted s2 = emitted s1"
    and c2: "lsCalls s2 = lsCalls s1 @ [(pth, rs \<or> rt)]"
    unfolding rest_def by (elim exE conjE)
  have r: "forPaths E ls enc False rs rt paths (enumerate 0 paths) s = (s2, Some err)"
    by (simp add: en forPaths_append r1 r2)
  have "forPaths E ls enc False rs rt paths (enumerate 0 paths) s = (s2, Some err)
      \<and> emitted s2 = emitted s
      \<and> lsCalls s2 = lsCalls s @ map (\<lambda>p. (projr (PathOrCidPath E p), rs \<or> rt)) (pre @ [bad])"
    by (simp add: r e1 e2 c1 c2 bad)
  then show ?thesis
    unfolding paths_def by (rule exI)
qed

lemma forPaths_abort_stream:
  assumes sink: "\<forall>h v. Emit E h v = None"
    and ok: "\<forall>p\<in>set pre. \<exists>pth. PathOrCidPath E p = Inr pth \<and> snd (ls pth (rs \<or> rt)) = None"
    and bad: "PathOrCidPath E bad = Inr pth"
    and err: "ls pth (rs \<or> rt) = (results, Some err)"
  shows "\<exists>s'. forPaths E ls enc True rs rt (pre @ bad # post) (enumerate 0 (pre @ bad # post)) s
              = (s', Some err)
           \<and> emitted s' = emitted s
                @ concat (map (\<lambda>p.
                    map (\<lambda>link. \<lparr>Objects = [\<lparr>ObjectHash = p, Links = [lsLinkOf E enc link]\<rparr>]\<rparr>)
                      (fst (ls (projr (PathOrCidPath E p)) (rs \<or> rt)))) pre)
                @ map (\<lambda>link. \<lparr>Objects = [\<lparr>ObjectHash = bad, Links = [lsLinkOf E enc link]\<rparr>]\<rparr>)
                    results
           \<and> lsCalls s' = lsCalls s @ map (\<lambda>p. (projr (PathOrCidPath E p), rs \<or> rt)) (pre @ [bad])"
proof -
  define paths where "paths = pre @ bad # post"
  define rest where "rest = (length pre, bad) # enumerate (Suc (length pre)) post"
  define U where "U = concat (map (\<lambda>p.
                    map (\<lambda>link. \<lparr>Objects = [\<lparr>ObjectHash = p, Links = [lsLinkOf E enc link]\<rparr>]\<rparr>)
                      (fst (ls (projr (PathOrCidPath E p)) (rs \<or> rt)))) pre)"
  have en: "enumerate 0 paths = enumerate 0 pre @ rest"
    by (simp add: paths_def rest_def enumerate_append_eq)
  have d0: "drop 0 paths = pre @ (bad # post)"
    by (simp add: paths_def)
  have nth: "paths ! length pre = bad"
    by (simp add: paths_def)
  from forPaths_stream_ok [where E = E and ls = ls and rs = rs and rt = rt and ps = pre
      and k = 0 and paths = paths and s = s and enc = enc and post = "bad # post", OF sink ok d0]
  obtain s1 where r1: "forPaths E ls enc True rs rt paths (enumerate 0 pre) s = (s1, None)"
    and e1: "emitted s1 = emitted s @ U"
    and c1: "lsCalls s1 = lsCalls s @ map (\<lambda>p. (projr (PathOrCidPath E p), rs \<or> rt)) pre"
    unfolding U_def by (elim exE conjE)
  from forPaths_ls_error_stream [where E = E and ls = ls and rs = rs and rt = rt and enc = enc
      and paths = paths and i = "length pre" and rest = "enumerate (Suc (length pre)) post"
      and s = s1, OF sink bad err]
  obtain s2 where r2: "forPaths E ls enc True rs rt paths rest s1 = (s2, Some err)"
    and e2: "emitted s2 = emitted s1
        @ map (\<lambda>link. \<lparr>Objects = [\<lparr>ObjectHash = bad, Links = [lsLinkOf E enc link]\<rparr>]\<rparr>) results"
    and c2: "lsCalls s2 = lsCalls s1 @ [(pth, rs \<or> rt)]"
    unfolding rest_def nth by (elim exE conjE)
  have r: "forPaths E ls enc True rs rt paths (enumerate 0 paths) s = (s2, Some err)"
    by (simp add: en forPaths_append r1 r2)
  have "forPaths E ls enc True rs rt paths (enumerate 0 paths) s = (s2, Some err)
      \<and> emitted s2 = emitted s @ U
          @ map (\<lambda>link. \<lparr>Objects = [\<lparr>ObjectHash = bad, Links = [lsLinkOf E enc link]\<rparr>]\<rparr>) results
      \<and> lsCalls s2 = lsCalls s @ map (\<lambda>p. (projr (PathOrCidPath E p), rs \<or> rt)) (pre @ [bad])"
    by (simp add: r e1 e2 c1 c2 bad)
  then show ?thesis
    unfolding paths_def U_def by (rule exI)
qed

lemma done'_lsCalls: "lsCalls (fst (done' E stream s)) = lsCalls s"
  by (simp add: done'_def emit_def)

subsection \<open>The loop of tabularOutput\<close>

lemma forObjects_ignoreBreaks:
  "forObjects E headers size' multipleFolders True objects lastObjectHash =
     (concat (map (\<lambda>object. concat (map (fprintLink E size') (Links object))) objects),
      lastObjectHash)"
  by (induction objects arbitrary: lastObjectHash) simp_all

lemma forObjects_breaks:
  "forObjects E headers size' multipleFolders False objects lastObjectHash =
     (concat (map (\<lambda>(prev, object).
        (if ObjectHash object \<noteq> prev
         then (if multipleFolders
               then (if prev \<noteq> [] then NL else []) @ ObjectHash object @ '':'' @ NL
               else [])
              @ (if headers
                 then (if size' then ''Hash'' @ TAB @ ''Size'' @ TAB @ ''Name''
                       else ''Hash'' @ TAB @ ''Name'') @ NL
                 else [])
         else [])
        @ concat (map (fprintLink E size') (Links object)))
        (zip (lastObjectHash # map ObjectHash objects) objects)),
      last (lastObjectHash # map ObjectHash objects))"
proof (induction objects arbitrary: lastObjectHash)
  case Nil
  show ?case by simp
next
  case (Cons object objects)
  have key: "(if ObjectHash object \<noteq> lastObjectHash then ObjectHash object else lastObjectHash)
      = ObjectHash object"
    by simp
  show ?case
    by (simp add: Let_def key Cons.IH del: if_not_P)
qed

lemma forObjects_append:
  "forObjects E headers size' multipleFolders ignoreBreaks (xs @ ys) lastObjectHash =
     (let (w1, l1) = forObjects E headers size' multipleFolders ignoreBreaks xs lastObjectHash;
          (w2, l2) = forObjects E headers size' multipleFolders ignoreBreaks ys l1
      in (w1 @ w2, l2))"
proof (induction xs arbitrary: lastObjectHash)
  case Nil
  show ?case by (simp add: split_def)
next
  case (Cons x xs)
  show ?case
    by (simp add: Let_def split_def Cons.IH)
qed

lemma tabularWritten_append:
  "tabularWritten E req \<lparr>Objects = xs @ ys\<rparr> key ignoreBreaks =
     (fst (tabularWritten E req \<lparr>Objects = xs\<rparr> key ignoreBreaks)
        @ fst (tabularWritten E req \<lparr>Objects = ys\<rparr>
                 (snd (tabularWritten E req \<lparr>Objects = xs\<rparr> key ignoreBreaks)) ignoreBreaks),
      snd (tabularWritten E req \<lparr>Objects = ys\<rparr>
             (snd (tabularWritten E req \<lparr>Objects = xs\<rparr> key ignoreBreaks)) ignoreBreaks))"
  by (simp add: tabularWritten_def Let_def forObjects_append split_def)

lemma tabularWritten_eta: "tabularWritten E req \<lparr>Objects = Objects out\<rparr> = tabularWritten E req out"
  by (simp add: tabularWritten_def fun_eq_iff)

lemma snd_tabularOutput:
  "snd (tabularOutput E req out key ignoreBreaks) = snd (tabularWritten E req out key ignoreBreaks)"
  by (simp add: tabularOutput_def split_def Let_def)

lemma foldl_tabularWritten:
  "foldl (\<lambda>(text, key) out.
            (text @ fst (tabularWritten E req out key ignoreBreaks),
             snd (tabularWritten E req out key ignoreBreaks)))
     (text0, key0) outs
   = (text0 @ fst (tabularWritten E req \<lparr>Objects = concat (map Objects outs)\<rparr> key0 ignoreBreaks),
      snd (tabularWritten E req \<lparr>Objects = concat (map Objects outs)\<rparr> key0 ignoreBreaks))"
proof (induction outs arbitrary: text0 key0)
  case Nil
  show ?case by (simp add: tabularWritten_def)
next
  case (Cons out outs)
  show ?case
    by (simp add: Cons.IH tabularWritten_append [of E req "Objects out"] tabularWritten_eta)
qed

subsection \<open>Decimal digits\<close>

lemma digit_cases:
  "(d::nat) < 10 \<Longrightarrow>
   d = 0 \<or> d = 1 \<or> d = 2 \<or> d = 3 \<or> d = 4 \<or> d = 5 \<or> d = 6 \<or> d = 7 \<or> d = 8 \<or> d = 9"
  by arith

lemma digit_value:
  assumes "(d::nat) < 10"
  shows "(of_char (''0123456789'' ! d) :: nat) = 48 + d"
proof -
  from digit_cases [OF assms] show ?thesis
    by (elim disjE) simp_all
qed

lemma FormatUint_value:
  "foldl (\<lambda>a c. 10 * a + (of_char c - 48)) 0 (FormatUint n) = n"
proof (induction n rule: FormatUint.induct)
  case (1 n)
  let ?f = "\<lambda>a c. 10 * a + ((of_char c :: nat) - 48)"
  show ?case
  proof (cases "n < 10")
    case True
    have eq: "FormatUint n = [''0123456789'' ! n]"
      by (simp only: FormatUint.simps [of n] True if_True)
    have d: "(of_char (''0123456789'' ! n) :: nat) = 48 + n"
      by (rule digit_value [OF True])
    have "foldl ?f 0 (FormatUint n) = 10 * 0 + (48 + n - 48)"
      by (simp only: eq foldl.simps d)
    also have "\<dots> = n"
      by simp
    finally show ?thesis .
  next
    case False
    have IH: "foldl ?f 0 (FormatUint (n div 10)) = n div 10"
      by (rule "1" [OF False])
    have eq: "FormatUint n = FormatUint (n div 10) @ [''0123456789'' ! (n mod 10)]"
      by (simp only: FormatUint.simps [of n] False if_False)
    have d: "(of_char (''0123456789'' ! (n mod 10)) :: nat) = 48 + n mod 10"
      by (rule digit_value) simp
    have "foldl ?f 0 (FormatUint n) = 10 * (n div 10) + (48 + n mod 10 - 48)"
      by (simp only: eq foldl_append foldl.simps IH d)
    also have "\<dots> = n"
      by simp
    finally show ?thesis .
  qed
qed

subsection \<open>Rows depend on four fields of a link\<close>

lemma fprintLink_cong:
  assumes "Name l = Name m" and "Hash l = Hash m" and "Size l = Size m" and "Type l = Type m"
  shows "fprintLink E size' l = fprintLink E size' m"
  unfolding fprintLink_def assms by (rule refl)

lemma rows_cong:
  assumes "list_all2 (\<lambda>l m. Name l = Name m \<and> Hash l = Hash m \<and> Size l = Size m
             \<and> Type l = Type m \<and> Target l = Target m) ls ms"
  shows "map (fprintLink E size') ls = map (fprintLink E size') ms"
  using assms
proof (induction rule: list_all2_induct)
  case Nil
  show ?case by simp
next
  case (Cons l ls m ms)
  from Cons.hyps(1) have "fprintLink E size' l = fprintLink E size' m"
    by (intro fprintLink_cong) (elim conjE, assumption)+
  with Cons.IH show ?case
    by (simp only: list.map)
qed

lemma forObjects_cong:
  assumes "list_all2 (\<lambda>a b. ObjectHash a = ObjectHash b
             \<and> list_all2 (\<lambda>l m. Name l = Name m \<and> Hash l = Hash m \<and> Size l = Size m
                  \<and> Type l = Type m \<and> Target l = Target m) (Links a) (Links b)) xs ys"
  shows "forObjects E headers size' multipleFolders ignoreBreaks xs key
       = forObjects E headers size' multipleFolders ignoreBreaks ys key"
  using assms
proof (induction arbitrary: key rule: list_all2_induct)
  case Nil
  show ?case by simp
next
  case (Cons x xs y ys)
  from Cons.hyps(1) have h: "ObjectHash x = ObjectHash y"
    by (rule conjunct1)
  from Cons.hyps(1) have r: "map (fprintLink E size') (Links x) = map (fprintLink E size') (Links y)"
    by (intro rows_cong) (rule conjunct2)
  show ?case
    by (simp only: forObjects.simps h r Cons.IH)
qed

subsection \<open>Run without streaming\<close>

text \<open>
  C1. When every requested path parses and its traversal ends without an error, a run
  without streaming hands exactly one value to the emitter and returns what the emitter
  returns for it. The value has one object per requested path, in the order of the request;
  the object at position \<open>i\<close> carries the \<open>i\<close>-th path string as its key, and its links are
  the entries that the traversal sent for that path (as a multiset, so none when there were
  none), sorted by name in ascending byte-wise lexicographic order.
\<close>

theorem batch_one_unit_in_request_order:
  assumes "GetApi E = Inr ls"
    and "ParseBodyArgs E req = Inr paths"
    and "GetCidEncoder E (req\<lparr>Arguments := paths\<rparr>) = Inr enc"
    and "\<not> optBool req lsStreamOptionName"
    and "\<forall>p\<in>set paths. \<exists>pth. PathOrCidPath E p = Inr pth
           \<and> snd (ls pth (optBool req lsSizeOptionName \<or> optBool req lsResolveTypeOptionName)) = None"
  shows "\<exists>objs. emitted (fst (LsCmd_Run E req)) = [\<lparr>Objects = objs\<rparr>]
           \<and> snd (LsCmd_Run E req) = Emit E [] \<lparr>Objects = objs\<rparr>
           \<and> length objs = length paths
           \<and> (\<forall>i<length paths.
                 ObjectHash (objs ! i) = paths ! i
                 \<and> sorted (map Name (Links (objs ! i)))
                 \<and> mset (Links (objs ! i)) = mset (map (lsLinkOf E enc)
                      (fst (ls (projr (PathOrCidPath E (paths ! i)))
                         (optBool req lsSizeOptionName \<or> optBool req lsResolveTypeOptionName)))))"
proof -
  define rs where "rs = optBool req lsSizeOptionName"
  define rt where "rt = optBool req lsResolveTypeOptionName"
  define s0 where "s0 = initState\<lparr>outputObjects := replicate (length paths) zeroLsObject\<rparr>"
  define objs where "objs = map (\<lambda>p. \<lparr>ObjectHash = p, Links = SortFunc byName (map (lsLinkOf E enc)
                         (fst (ls (projr (PathOrCidPath E p)) (rs \<or> rt))))\<rparr>) paths"
  have ok: "\<forall>p\<in>set paths. \<exists>pth. PathOrCidPath E p = Inr pth \<and> snd (ls pth (rs \<or> rt)) = None"
    using assms(5) by (simp add: rs_def rt_def)
  have len0: "length (outputObjects s0) = length paths"
    by (simp add: s0_def)
  from forPaths_batch_ok [where E = E and ls = ls and rs = rs and rt = rt and ps = paths
      and k = 0 and paths = paths and s = s0 and enc = enc and post = "[]"] ok len0
  obtain s' where
    r: "forPaths E ls enc False rs rt paths (enumerate 0 paths) s0 = (s', None)"
    and e: "emitted s' = emitted s0"
    and o: "outputObjects s' = objs"
    by (auto simp: objs_def)
  have run: "LsCmd_Run E req = done' E False s'"
    using assms(1-4) r by (simp add: LsCmd_Run_def rs_def rt_def s0_def)
  have e0: "emitted s' = []"
    using e by (simp add: s0_def initState_def)
  have 1: "emitted (fst (LsCmd_Run E req)) = [\<lparr>Objects = objs\<rparr>]"
    and 2: "snd (LsCmd_Run E req) = Emit E [] \<lparr>Objects = objs\<rparr>"
    by (simp_all add: run done'_def emit_def e0 o)
  have 3: "length objs = length paths"
    by (simp add: objs_def)
  have 4: "ObjectHash (objs ! i) = paths ! i
                 \<and> sorted (map Name (Links (objs ! i)))
                 \<and> mset (Links (objs ! i)) = mset (map (lsLinkOf E enc)
                      (fst (ls (projr (PathOrCidPath E (paths ! i))) (rs \<or> rt))))"
    if "i < length paths" for i
    using that by (simp add: objs_def sorted_SortFunc_byName mset_SortFunc)
  show ?thesis
    using 1 2 3 4 unfolding rs_def rt_def by blast
qed


theorem batch_one_unit_in_request_order_witness:
  "GetApi exampleEnv = Inr exampleLs
   \<and> ParseBodyArgs exampleEnv (exampleRequest [''a'', ''e''] False False) = Inr [''a'', ''e'']
   \<and> \<not> optBool (exampleRequest [''a'', ''e''] False False) lsStreamOptionName
   \<and> (\<exists>objs. emitted (fst (LsCmd_Run exampleEnv (exampleRequest [''a'', ''e''] False False)))
                  = [\<lparr>Objects = objs\<rparr>]
          \<and> length objs = 2
          \<and> ObjectHash (objs ! 0) = ''a'' \<and> sorted (map Name (Links (objs ! 0)))
          \<and> length (Links (objs ! 0)) = 2
          \<and> ObjectHash (objs ! 1) = ''e'' \<and> Links (objs ! 1) = [])"
proof -
  let ?req = "exampleRequest [''a'', ''e''] False False"
  let ?rc = "optBool ?req lsSizeOptionName \<or> optBool ?req lsResolveTypeOptionName"
  have h1: "GetApi exampleEnv = Inr exampleLs"
    by (simp add: exampleEnv_def)
  have h2: "ParseBodyArgs exampleEnv ?req = Inr [''a'', ''e'']"
    by (simp add: exampleEnv_def exampleRequest_def)
  have h3: "GetCidEncoder exampleEnv (?req\<lparr>Arguments := [''a'', ''e'']\<rparr>) = Inr (\<lambda>c. c)"
    by (simp add: exampleEnv_def)
  have h4: "\<not> optBool ?req lsStreamOptionName"
    by (simp add: example_defs)
  have rc: "?rc = True"
    by (simp add: example_defs)
  have h5: "\<forall>p\<in>set [''a'', ''e'']. \<exists>pth. PathOrCidPath exampleEnv p = Inr pth
      \<and> snd (exampleLs pth ?rc) = None"
    unfolding rc by (simp add: exampleEnv_def exampleLs_def)
  from batch_one_unit_in_request_order [OF h1 h2 h3 h4 h5] obtain objs where
    e: "emitted (fst (LsCmd_Run exampleEnv ?req)) = [\<lparr>Objects = objs\<rparr>]"
    and l: "length objs = length [''a'', ''e'']"
    and a: "\<forall>i<length [''a'', ''e''].
                 ObjectHash (objs ! i) = [''a'', ''e''] ! i
                 \<and> sorted (map Name (Links (objs ! i)))
                 \<and> mset (Links (objs ! i)) = mset (map (lsLinkOf exampleEnv (\<lambda>c. c))
                      (fst (exampleLs (projr (PathOrCidPath exampleEnv ([''a'', ''e''] ! i))) ?rc)))"
    by blast
  from a have a0: "ObjectHash (objs ! 0) = ''a'' \<and> sorted (map Name (Links (objs ! 0)))
      \<and> mset (Links (objs ! 0)) = mset (map (lsLinkOf exampleEnv (\<lambda>c. c))
                      (fst (exampleLs (projr (PathOrCidPath exampleEnv ''a'')) ?rc)))"
    by (elim allE [of _ 0]) simp
  from a have a1: "ObjectHash (objs ! 1) = ''e''
      \<and> mset (Links (objs ! 1)) = mset (map (lsLinkOf exampleEnv (\<lambda>c. c))
                      (fst (exampleLs (projr (PathOrCidPath exampleEnv ''e'')) ?rc)))"
    by (elim allE [of _ 1]) simp
  have la: "fst (exampleLs (projr (PathOrCidPath exampleEnv ''a'')) ?rc)
      = [exampleEntry ''z'' ''QmZ'' 1 1, exampleEntry ''m'' ''QmM'' 2 2]"
    by (simp add: exampleEnv_def exampleLs_def)
  have le: "fst (exampleLs (projr (PathOrCidPath exampleEnv ''e'')) ?rc) = []"
    by (simp add: exampleEnv_def exampleLs_def)
  have s0: "length (Links (objs ! 0)) = 2"
  proof -
    from a0 have "mset (Links (objs ! 0)) = mset (map (lsLinkOf exampleEnv (\<lambda>c. c))
        (fst (exampleLs (projr (PathOrCidPath exampleEnv ''a'')) ?rc)))"
      by (elim conjE)
    then have "size (mset (Links (objs ! 0))) = size (mset (map (lsLinkOf exampleEnv (\<lambda>c. c))
        (fst (exampleLs (projr (PathOrCidPath exampleEnv ''a'')) ?rc))))"
      by (rule arg_cong)
    then show ?thesis
      by (simp add: la)
  qed
  from a1 have l1: "Links (objs ! 1) = []"
    by (simp add: le)
  show ?thesis
    using h1 h2 h4 e l a0 a1 s0 l1 by simp
qed

subsection \<open>Run with streaming\<close>

text \<open>
  C2. In a streaming run that returns no error, the values handed to the emitter are, path
  by path in the order of the request and entry by entry in the order of the traversal, one
  value per entry: a single object with the requested path string (not the path it resolved
  to) as its key and that entry as its only link. Their number is the number of entries of
  all paths together. Such a run exists whenever every path parses, every traversal ends
  without an error and the emitter accepts every value.
\<close>

theorem stream_one_unit_per_entry:
  assumes "GetApi E = Inr ls"
    and "ParseBodyArgs E req = Inr paths"
    and "GetCidEncoder E (req\<lparr>Arguments := paths\<rparr>) = Inr enc"
    and "optBool req lsStreamOptionName"
  shows "(snd (LsCmd_Run E req) = None \<longrightarrow>
            emitted (fst (LsCmd_Run E req)) = concat (map (\<lambda>p.
                 map (\<lambda>link. \<lparr>Objects = [\<lparr>ObjectHash = p, Links = [lsLinkOf E enc link]\<rparr>]\<rparr>)
                   (fst (ls (projr (PathOrCidPath E p))
                      (optBool req lsSizeOptionName \<or> optBool req lsResolveTypeOptionName)))) paths)
            \<and> length (emitted (fst (LsCmd_Run E req))) = sum_list (map (\<lambda>p.
                   length (fst (ls (projr (PathOrCidPath E p))
                      (optBool req lsSizeOptionName \<or> optBool req lsResolveTypeOptionName)))) paths))
       \<and> ((\<forall>h v. Emit E h v = None)
            \<and> (\<forall>p\<in>set paths. \<exists>pth. PathOrCidPath E p = Inr pth
                 \<and> snd (ls pth (optBool req lsSizeOptionName \<or> optBool req lsResolveTypeOptionName)) = None)
            \<longrightarrow> snd (LsCmd_Run E req) = None)"
proof -
  define rs where "rs = optBool req lsSizeOptionName"
  define rt where "rt = optBool req lsResolveTypeOptionName"
  define R where "R = forPaths E ls enc True rs rt paths (enumerate 0 paths) initState"
  define U where "U = concat (map (\<lambda>p.
                 map (\<lambda>link. \<lparr>Objects = [\<lparr>ObjectHash = p, Links = [lsLinkOf E enc link]\<rparr>]\<rparr>)
                   (fst (ls (projr (PathOrCidPath E p)) (rs \<or> rt)))) paths)"
  have run: "LsCmd_Run E req = R"
    using assms by (cases R) (auto simp: LsCmd_Run_def R_def rs_def rt_def done'_def split: option.splits)
  have a: "emitted (fst R) = U" if "snd R = None"
  proof -
    from that have "R = (fst R, None)" by (metis prod.collapse)
    from forPaths_stream_None [OF this [unfolded R_def], of ] show ?thesis
      by (simp add: U_def initState_def R_def)
  qed
  have len: "length U = sum_list (map (\<lambda>p. length (fst (ls (projr (PathOrCidPath E p)) (rs \<or> rt)))) paths)"
    by (simp add: U_def length_concat comp_def)
  have b: "snd R = None"
    if "\<forall>h v. Emit E h v = None"
      and "\<forall>p\<in>set paths. \<exists>pth. PathOrCidPath E p = Inr pth \<and> snd (ls pth (rs \<or> rt)) = None"
    using forPaths_stream_ok [where E = E and ls = ls and rs = rs and rt = rt and ps = paths
      and k = 0 and paths = paths and s = initState and enc = enc and post = "[]"] that
    by (auto simp: R_def)
  have A: "snd (LsCmd_Run E req) = None \<longrightarrow>
      emitted (fst (LsCmd_Run E req)) = U
      \<and> length (emitted (fst (LsCmd_Run E req)))
          = sum_list (map (\<lambda>p. length (fst (ls (projr (PathOrCidPath E p)) (rs \<or> rt)))) paths)"
    using a len by (simp add: run)
  have B: "(\<forall>h v. Emit E h v = None)
      \<and> (\<forall>p\<in>set paths. \<exists>pth. PathOrCidPath E p = Inr pth \<and> snd (ls pth (rs \<or> rt)) = None)
      \<longrightarrow> snd (LsCmd_Run E req) = None"
    using b unfolding run by blast
  from A B show ?thesis
    unfolding U_def rs_def rt_def by (rule conjI)
qed


theorem stream_one_unit_per_entry_witness:
  "GetApi exampleEnv = Inr exampleLs
   \<and> ParseBodyArgs exampleEnv (exampleRequest [''a'', ''b''] False True) = Inr [''a'', ''b'']
   \<and> optBool (exampleRequest [''a'', ''b''] False True) lsStreamOptionName
   \<and> snd (LsCmd_Run exampleEnv (exampleRequest [''a'', ''b''] False True)) = None
   \<and> length (emitted (fst (LsCmd_Run exampleEnv (exampleRequest [''a'', ''b''] False True)))) = 3"
proof -
  let ?req = "exampleRequest [''a'', ''b''] False True"
  let ?rc = "optBool ?req lsSizeOptionName \<or> optBool ?req lsResolveTypeOptionName"
  have h1: "GetApi exampleEnv = Inr exampleLs"
    by (simp add: exampleEnv_def)
  have h2: "ParseBodyArgs exampleEnv ?req = Inr [''a'', ''b'']"
    by (simp add: exampleEnv_def exampleRequest_def)
  have h3: "GetCidEncoder exampleEnv (?req\<lparr>Arguments := [''a'', ''b'']\<rparr>) = Inr (\<lambda>c. c)"
    by (simp add: exampleEnv_def)
  have h4: "optBool ?req lsStreamOptionName"
    by (simp add: example_defs)
  have rc: "?rc = True"
    by (simp add: example_defs)
  have sink: "\<forall>h v. Emit exampleEnv h v = None"
    by (simp add: exampleEnv_def)
  have ok: "\<forall>p\<in>set [''a'', ''b'']. \<exists>pth. PathOrCidPath exampleEnv p = Inr pth
      \<and> snd (exampleLs pth ?rc) = None"
    unfolding rc by (simp add: exampleEnv_def exampleLs_def)
  note run = stream_one_unit_per_entry [OF h1 h2 h3 h4]
  have none: "snd (LsCmd_Run exampleEnv ?req) = None"
    by (rule mp [OF conjunct2 [OF run] conjI [OF sink ok]])
  have "length (emitted (fst (LsCmd_Run exampleEnv ?req))) = sum_list (map (\<lambda>p.
      length (fst (exampleLs (projr (PathOrCidPath exampleEnv p)) ?rc))) [''a'', ''b''])"
    by (rule conjunct2 [OF mp [OF conjunct1 [OF run] none]])
  also have "\<dots> = 3"
    unfolding rc by (simp add: exampleEnv_def exampleLs_def)
  finally show ?thesis
    using h1 h2 h4 none by simp
qed

subsection \<open>A traversal that ends with an error\<close>

text \<open>
  C3. Let the paths before \<open>bad\<close> parse and traverse without an error, and let the
  traversal of \<open>bad\<close> send \<open>results\<close> and end with the error \<open>err\<close>. Then the run returns
  \<open>err\<close>, and the traversal has been called for the paths up to \<open>bad\<close> and for no path
  after it. Without streaming nothing at all has been handed to the emitter, although the
  earlier paths were completed. With streaming (and an emitter that accepts every value) the
  values for the entries of the earlier paths, and for the entries that \<open>bad\<close> sent before
  it failed, have been emitted and stay emitted.
\<close>

theorem traversal_error_aborts_run:
  assumes "GetApi E = Inr ls"
    and "ParseBodyArgs E req = Inr (pre @ bad # post)"
    and "GetCidEncoder E (req\<lparr>Arguments := pre @ bad # post\<rparr>) = Inr enc"
    and "\<forall>p\<in>set pre. \<exists>pth. PathOrCidPath E p = Inr pth
           \<and> snd (ls pth (optBool req lsSizeOptionName \<or> optBool req lsResolveTypeOptionName)) = None"
    and "PathOrCidPath E bad = Inr pth"
    and "ls pth (optBool req lsSizeOptionName \<or> optBool req lsResolveTypeOptionName)
           = (results, Some err)"
  shows "(\<not> optBool req lsStreamOptionName \<longrightarrow>
            snd (LsCmd_Run E req) = Some err
            \<and> emitted (fst (LsCmd_Run E req)) = []
            \<and> map fst (lsCalls (fst (LsCmd_Run E req)))
                = map (\<lambda>p. projr (PathOrCidPath E p)) (pre @ [bad]))
       \<and> (optBool req lsStreamOptionName \<and> (\<forall>h v. Emit E h v = None) \<longrightarrow>
            snd (LsCmd_Run E req) = Some err
            \<and> emitted (fst (LsCmd_Run E req))
                = concat (map (\<lambda>p.
                    map (\<lambda>link. \<lparr>Objects = [\<lparr>ObjectHash = p, Links = [lsLinkOf E enc link]\<rparr>]\<rparr>)
                      (fst (ls (projr (PathOrCidPath E p))
                         (optBool req lsSizeOptionName \<or> optBool req lsResolveTypeOptionName)))) pre)
                  @ map (\<lambda>link. \<lparr>Objects = [\<lparr>ObjectHash = bad, Links = [lsLinkOf E enc link]\<rparr>]\<rparr>)
                      results
            \<and> map fst (lsCalls (fst (LsCmd_Run E req)))
                = map (\<lambda>p. projr (PathOrCidPath E p)) (pre @ [bad]))"
proof -
  define rs where "rs = optBool req lsSizeOptionName"
  define rt where "rt = optBool req lsResolveTypeOptionName"
  define paths where "paths = pre @ bad # post"
  define U where "U = concat (map (\<lambda>p.
                    map (\<lambda>link. \<lparr>Objects = [\<lparr>ObjectHash = p, Links = [lsLinkOf E enc link]\<rparr>]\<rparr>)
                      (fst (ls (projr (PathOrCidPath E p)) (rs \<or> rt)))) pre)
                  @ map (\<lambda>link. \<lparr>Objects = [\<lparr>ObjectHash = bad, Links = [lsLinkOf E enc link]\<rparr>]\<rparr>)
                      results"
  define C where "C = map (\<lambda>p. (projr (PathOrCidPath E p), rs \<or> rt)) (pre @ [bad])"
  have C: "map fst C = map (\<lambda>p. projr (PathOrCidPath E p)) (pre @ [bad])"
    by (simp add: C_def comp_def)
  have ok: "\<forall>p\<in>set pre. \<exists>pth. PathOrCidPath E p = Inr pth \<and> snd (ls pth (rs \<or> rt)) = None"
    using assms(4) by (simp only: rs_def rt_def)
  have err: "ls pth (rs \<or> rt) = (results, Some err)"
    using assms(6) by (simp only: rs_def rt_def)
  have batch: "snd (LsCmd_Run E req) = Some err \<and> emitted (fst (LsCmd_Run E req)) = []
      \<and> map fst (lsCalls (fst (LsCmd_Run E req))) = map fst C"
    if ns: "\<not> optBool req lsStreamOptionName"
  proof -
    define s0 where "s0 = initState\<lparr>outputObjects := replicate (length paths) zeroLsObject\<rparr>"
    have len: "length (outputObjects s0) = length (pre @ bad # post)"
      by (simp add: s0_def paths_def)
    from forPaths_abort_batch [where E = E and ls = ls and rs = rs and rt = rt and enc = enc
        and s = s0, OF ok assms(5) err len]
    obtain s' where r: "forPaths E ls enc False rs rt paths (enumerate 0 paths) s0 = (s', Some err)"
      and e: "emitted s' = emitted s0"
      and c: "lsCalls s' = lsCalls s0 @ C"
      unfolding paths_def C_def by (elim exE conjE)
    have run: "LsCmd_Run E req = (s', Some err)"
      using assms(1-3) ns r
      by (simp add: LsCmd_Run_def rs_def rt_def s0_def paths_def)
    show ?thesis
      by (simp add: run e c s0_def initState_def)
  qed
  have stream: "snd (LsCmd_Run E req) = Some err \<and> emitted (fst (LsCmd_Run E req)) = U
      \<and> map fst (lsCalls (fst (LsCmd_Run E req))) = map fst C"
    if st: "optBool req lsStreamOptionName" and sink: "\<forall>h v. Emit E h v = None"
  proof -
    have "\<exists>s'. forPaths E ls enc True rs rt paths (enumerate 0 paths) initState = (s', Some err)
        \<and> emitted s' = emitted initState @ U
        \<and> lsCalls s' = lsCalls initState @ C"
      unfolding paths_def C_def U_def
      by (rule forPaths_abort_stream [where E = E and ls = ls and rs = rs and rt = rt
          and enc = enc and s = initState, OF sink ok assms(5) err])
    then obtain s' where r: "forPaths E ls enc True rs rt paths (enumerate 0 paths) initState = (s', Some err)"
      and e: "emitted s' = emitted initState @ U"
      and c: "lsCalls s' = lsCalls initState @ C"
      by (elim exE conjE)
    have run: "LsCmd_Run E req = (s', Some err)"
      using assms(1-3) st r
      by (simp add: LsCmd_Run_def rs_def rt_def paths_def)
    show ?thesis
      by (simp add: run e c initState_def)
  qed
  have A: "\<not> optBool req lsStreamOptionName \<longrightarrow>
      snd (LsCmd_Run E req) = Some err \<and> emitted (fst (LsCmd_Run E req)) = []
      \<and> map fst (lsCalls (fst (LsCmd_Run E req))) = map (\<lambda>p. projr (PathOrCidPath E p)) (pre @ [bad])"
    using batch C by simp
  have B: "optBool req lsStreamOptionName \<and> (\<forall>h v. Emit E h v = None) \<longrightarrow>
      snd (LsCmd_Run E req) = Some err \<and> emitted (fst (LsCmd_Run E req)) = U
      \<and> map fst (lsCalls (fst (LsCmd_Run E req))) = map (\<lambda>p. projr (PathOrCidPath E p)) (pre @ [bad])"
    using stream C by simp
  from A B show ?thesis
    unfolding U_def rs_def rt_def by (rule conjI)
qed

theorem traversal_error_aborts_run_witness:
  "(\<not> optBool (exampleRequest [''a'', ''x'', ''b''] False False) lsStreamOptionName
    \<and> snd (LsCmd_Run exampleEnv (exampleRequest [''a'', ''x'', ''b''] False False))
         = Some (Error ''no link'')
    \<and> emitted (fst (LsCmd_Run exampleEnv (exampleRequest [''a'', ''x'', ''b''] False False))) = []
    \<and> map fst (lsCalls (fst (LsCmd_Run exampleEnv (exampleRequest [''a'', ''x'', ''b''] False False))))
         = [''/ipfs/a'', ''/ipfs/x''])
   \<and> (optBool (exampleRequest [''a'', ''x'', ''b''] False True) lsStreamOptionName
    \<and> (\<forall>h v. Emit exampleEnv h v = None)
    \<and> snd (LsCmd_Run exampleEnv (exampleRequest [''a'', ''x'', ''b''] False True))
         = Some (Error ''no link'')
    \<and> length (emitted (fst (LsCmd_Run exampleEnv (exampleRequest [''a'', ''x'', ''b''] False True))))
         = 3)"
proof -
  let ?enc = "\<lambda>c::Cid. c"
  have h1: "GetApi exampleEnv = Inr exampleLs"
    by (simp add: exampleEnv_def)
  have h2: "ParseBodyArgs exampleEnv (exampleRequest [''a'', ''x'', ''b''] False st)
      = Inr ([''a''] @ ''x'' # [''b''])" for st
    by (simp add: exampleEnv_def exampleRequest_def)
  have h3: "GetCidEncoder exampleEnv
      ((exampleRequest [''a'', ''x'', ''b''] False st)\<lparr>Arguments := [''a''] @ ''x'' # [''b'']\<rparr>)
      = Inr ?enc" for st
    by (simp add: exampleEnv_def)
  have rc: "(optBool (exampleRequest [''a'', ''x'', ''b''] False st) lsSizeOptionName
      \<or> optBool (exampleRequest [''a'', ''x'', ''b''] False st) lsResolveTypeOptionName) = True" for st
    by (simp add: example_defs)
  have h4: "\<forall>p\<in>set [''a'']. \<exists>pth. PathOrCidPath exampleEnv p = Inr pth
      \<and> snd (exampleLs pth (optBool (exampleRequest [''a'', ''x'', ''b''] False st) lsSizeOptionName
         \<or> optBool (exampleRequest [''a'', ''x'', ''b''] False st) lsResolveTypeOptionName)) = None" for st
    unfolding rc by (simp add: exampleEnv_def exampleLs_def)
  have h5: "PathOrCidPath exampleEnv ''x'' = Inr ''/ipfs/x''"
    by (simp add: exampleEnv_def)
  have h6: "exampleLs ''/ipfs/x'' (optBool (exampleRequest [''a'', ''x'', ''b''] False st) lsSizeOptionName
         \<or> optBool (exampleRequest [''a'', ''x'', ''b''] False st) lsResolveTypeOptionName)
      = ([exampleEntry ''p'' ''QmP'' 5 1], Some (Error ''no link''))" for st
    unfolding rc by (simp add: exampleLs_def)
  have off: "\<not> optBool (exampleRequest [''a'', ''x'', ''b''] False False) lsStreamOptionName"
    by (simp add: example_defs)
  have on: "optBool (exampleRequest [''a'', ''x'', ''b''] False True) lsStreamOptionName"
    by (simp add: example_defs)
  have sink: "\<forall>h v. Emit exampleEnv h v = None"
    by (simp add: exampleEnv_def)
  have parsed: "map (\<lambda>p. projr (PathOrCidPath exampleEnv p)) ([''a''] @ [''x''])
      = [''/ipfs/a'', ''/ipfs/x'']"
    by (simp add: exampleEnv_def)
  have la: "fst (exampleLs (projr (PathOrCidPath exampleEnv ''a'')) True)
      = [exampleEntry ''z'' ''QmZ'' 1 1, exampleEntry ''m'' ''QmM'' 2 2]"
    by (simp add: exampleEnv_def exampleLs_def)
  note batch = mp [OF conjunct1 [OF traversal_error_aborts_run
        [OF h1 h2 [of False] h3 [of False] h4 [of False] h5 h6 [of False]]] off]
  note stream = mp [OF conjunct2 [OF traversal_error_aborts_run
        [OF h1 h2 [of True] h3 [of True] h4 [of True] h5 h6 [of True]]] conjI [OF on sink]]
  have b: "snd (LsCmd_Run exampleEnv (exampleRequest [''a'', ''x'', ''b''] False False))
         = Some (Error ''no link'')
    \<and> emitted (fst (LsCmd_Run exampleEnv (exampleRequest [''a'', ''x'', ''b''] False False))) = []
    \<and> map fst (lsCalls (fst (LsCmd_Run exampleEnv (exampleRequest [''a'', ''x'', ''b''] False False))))
         = [''/ipfs/a'', ''/ipfs/x'']"
    using batch by (simp only: parsed)
  have s: "snd (LsCmd_Run exampleEnv (exampleRequest [''a'', ''x'', ''b''] False True))
         = Some (Error ''no link'')
    \<and> length (emitted (fst (LsCmd_Run exampleEnv (exampleRequest [''a'', ''x'', ''b''] False True))))
         = 3"
    using stream by (simp add: rc la)
  show ?thesis
    using off on sink b s by simp
qed

subsection \<open>The resolve-children option of the traversal\<close>

text \<open>
  C8. In both branches alike, the calls of the traversal are made for the requested paths
  in order, one call per path, up to the path where the run stops (all of them when the run
  returns no error), and every call carries as its resolve-children option the disjunction
  of the size and resolve-type options of the request.
\<close>

theorem resolve_children_is_size_or_type:
  assumes "ParseBodyArgs E req = Inr paths"
  shows "\<exists>n\<le>length paths.
           lsCalls (fst (LsCmd_Run E req))
             = map (\<lambda>p. (projr (PathOrCidPath E p),
                          optBool req lsSizeOptionName \<or> optBool req lsResolveTypeOptionName))
                 (take n paths)
           \<and> (snd (LsCmd_Run E req) = None \<longrightarrow> n = length paths)"
proof -
  define rs where "rs = optBool req lsSizeOptionName"
  define rt where "rt = optBool req lsResolveTypeOptionName"
  define stream where "stream = optBool req lsStreamOptionName"
  define f where "f = (\<lambda>p. (projr (PathOrCidPath E p), rs \<or> rt))"
  define Run where "Run = LsCmd_Run E req"
  have failed: "\<exists>n\<le>length paths. lsCalls (fst Run) = map f (take n paths)
      \<and> (snd Run = None \<longrightarrow> n = length paths)"
    if "Run = (initState, Some err)" for err
  proof -
    have "0 \<le> length paths \<and> lsCalls (fst Run) = map f (take 0 paths)
        \<and> (snd Run = None \<longrightarrow> 0 = length paths)"
      by (simp add: that initState_def)
    then show ?thesis by (rule exI)
  qed
  have "\<exists>n\<le>length paths. lsCalls (fst Run) = map f (take n paths)
      \<and> (snd Run = None \<longrightarrow> n = length paths)"
  proof (cases "GetApi E")
    case (Inl err)
    then have "Run = (initState, Some err)"
      by (simp add: Run_def LsCmd_Run_def)
    then show ?thesis by (rule failed)
  next
    case api: (Inr ls)
    show ?thesis
    proof (cases "GetCidEncoder E (req\<lparr>Arguments := paths\<rparr>)")
      case (Inl err)
      then have "Run = (initState, Some err)"
        using api assms by (simp add: Run_def LsCmd_Run_def)
      then show ?thesis by (rule failed)
    next
      case (Inr enc)
      define s0 where "s0 = (if stream then initState
          else initState\<lparr>outputObjects := replicate (length paths) zeroLsObject\<rparr>)"
      define R where "R = forPaths E ls enc stream rs rt paths (enumerate 0 paths) s0"
      have c0: "lsCalls s0 = []"
        by (simp add: s0_def initState_def)
      have run: "Run = (case R of (s, Some err) \<Rightarrow> (s, Some err) | (s, None) \<Rightarrow> done' E stream s)"
        using api assms Inr
        by (simp add: Run_def LsCmd_Run_def R_def s0_def rs_def rt_def stream_def
            split: prod.splits option.splits)
      have calls: "lsCalls (fst Run) = lsCalls (fst R)"
        by (cases R) (simp add: run done'_lsCalls split: option.splits)
      have none: "snd R = None" if "snd Run = None"
        using that by (cases R) (simp add: run split: option.splits)
      have "\<exists>n\<le>length paths. lsCalls (fst R) = lsCalls s0 @ map f (take n paths)
          \<and> (snd R = None \<longrightarrow> n = length paths)"
        unfolding R_def f_def by (rule forPaths_lsCalls)
      then obtain n where n: "n \<le> length paths"
        and c: "lsCalls (fst R) = lsCalls s0 @ map f (take n paths)"
        and e: "snd R = None \<longrightarrow> n = length paths"
        by (elim exE conjE)
      have "n \<le> length paths \<and> lsCalls (fst Run) = map f (take n paths)
          \<and> (snd Run = None \<longrightarrow> n = length paths)"
        using n c e none by (simp add: calls c0)
      then show ?thesis by (rule exI)
    qed
  qed
  then show ?thesis
    by (simp only: Run_def f_def rs_def rt_def)
qed

theorem resolve_children_is_size_or_type_witness:
  "ParseBodyArgs exampleEnv (exampleRequest [''a'', ''b''] False True) = Inr [''a'', ''b'']
   \<and> snd (LsCmd_Run exampleEnv (exampleRequest [''a'', ''b''] False True)) = None
   \<and> lsCalls (fst (LsCmd_Run exampleEnv (exampleRequest [''a'', ''b''] False True)))
        = [(''/ipfs/a'', True), (''/ipfs/b'', True)]"
proof -
  let ?req = "exampleRequest [''a'', ''b''] False True"
  have h: "ParseBodyArgs exampleEnv ?req = Inr [''a'', ''b'']"
    by (simp add: exampleEnv_def exampleRequest_def)
  have none: "snd (LsCmd_Run exampleEnv ?req) = None"
    by code_simp
  have rc: "(optBool ?req lsSizeOptionName \<or> optBool ?req lsResolveTypeOptionName) = True"
    by (simp add: example_defs)
  from resolve_children_is_size_or_type [OF h] obtain n where
    c: "lsCalls (fst (LsCmd_Run exampleEnv ?req))
        = map (\<lambda>p. (projr (PathOrCidPath exampleEnv p),
                     optBool ?req lsSizeOptionName \<or> optBool ?req lsResolveTypeOptionName))
            (take n [''a'', ''b''])"
    and e: "snd (LsCmd_Run exampleEnv ?req) = None \<longrightarrow> n = length [''a'', ''b'']"
    by (elim exE conjE)
  from e none have n: "n = 2"
    by simp
  have "lsCalls (fst (LsCmd_Run exampleEnv ?req)) = [(''/ipfs/a'', True), (''/ipfs/b'', True)]"
    unfolding c n rc by (simp add: exampleEnv_def)
  with h none show ?thesis
    by simp
qed

subsection \<open>Classification of the entry type\<close>

text \<open>
  C7. The classification of an entry's type code is a total function into the internal
  enumeration: the three named codes map to file, directory and symlink, and every other
  code maps to the zero value \<open>TRaw\<close> of the enumeration, the kind that stands for
  other or unknown. It is the type of the link built from the entry, and it never makes
  the loop over the entries return an error: without streaming that loop returns none, and
  with streaming none but what the emitter returns.
\<close>

theorem ftypeOf_total_unrecognized_is_zero_value:
  "ftypeOf E t \<in> {TFile, TDirectory, TSymlink, TRaw}
   \<and> (t \<noteq> iface_TFile E \<and> t \<noteq> iface_TDirectory E \<and> t \<noteq> iface_TSymlink E
        \<longrightarrow> ftypeOf E t = TRaw)
   \<and> (distinct [iface_TFile E, iface_TDirectory E, iface_TSymlink E]
        \<longrightarrow> ftypeOf E (iface_TFile E) = TFile
            \<and> ftypeOf E (iface_TDirectory E) = TDirectory
            \<and> ftypeOf E (iface_TSymlink E) = TSymlink)
   \<and> Type (lsLinkOf E enc link) = ftypeOf E (EntryType link)
   \<and> ((stream \<longrightarrow> (\<forall>h v. Emit E h v = None))
        \<longrightarrow> snd (forLinks E enc stream path results s) = None)"
proof -
  have 1: "ftypeOf E t \<in> {TFile, TDirectory, TSymlink, TRaw}"
    by (simp add: ftypeOf_def)
  have 2: "t \<noteq> iface_TFile E \<and> t \<noteq> iface_TDirectory E \<and> t \<noteq> iface_TSymlink E
      \<longrightarrow> ftypeOf E t = TRaw"
    by (simp add: ftypeOf_def)
  have 3: "distinct [iface_TFile E, iface_TDirectory E, iface_TSymlink E]
      \<longrightarrow> ftypeOf E (iface_TFile E) = TFile
          \<and> ftypeOf E (iface_TDirectory E) = TDirectory
          \<and> ftypeOf E (iface_TSymlink E) = TSymlink"
    by (auto simp: ftypeOf_def)
  have 4: "Type (lsLinkOf E enc link) = ftypeOf E (EntryType link)"
    by (simp add: lsLinkOf_def)
  have 5: "(stream \<longrightarrow> (\<forall>h v. Emit E h v = None))
      \<longrightarrow> snd (forLinks E enc stream path results s) = None"
  proof (cases stream)
    case True
    show ?thesis
    proof
      assume "stream \<longrightarrow> (\<forall>h v. Emit E h v = None)"
      with True have "\<forall>h v. Emit E h v = None" by simp
      from forLinks_stream [OF this] show "snd (forLinks E enc stream path results s) = None"
        by (simp add: True)
    qed
  next
    case False
    then show ?thesis by (simp add: forLinks_batch)
  qed
  from 1 2 3 4 5 show ?thesis
    by (intro conjI)
qed

theorem ftypeOf_total_unrecognized_is_zero_value_witness:
  "(9 :: FileType) \<noteq> iface_TFile exampleEnv \<and> 9 \<noteq> iface_TDirectory exampleEnv
   \<and> 9 \<noteq> iface_TSymlink exampleEnv
   \<and> ftypeOf exampleEnv 9 = TRaw
   \<and> distinct [iface_TFile exampleEnv, iface_TDirectory exampleEnv, iface_TSymlink exampleEnv]
   \<and> ftypeOf exampleEnv (iface_TFile exampleEnv) = TFile
   \<and> ftypeOf exampleEnv (iface_TDirectory exampleEnv) = TDirectory
   \<and> ftypeOf exampleEnv (iface_TSymlink exampleEnv) = TSymlink
   \<and> snd (forLinks exampleEnv (\<lambda>c. c) True ''b'' [exampleEntry ''k'' ''QmK'' 30 9] initState) = None"
proof -
  have codes: "(9 :: FileType) \<noteq> iface_TFile exampleEnv \<and> 9 \<noteq> iface_TDirectory exampleEnv
      \<and> 9 \<noteq> iface_TSymlink exampleEnv"
    by (simp add: exampleEnv_def)
  have d: "distinct [iface_TFile exampleEnv, iface_TDirectory exampleEnv, iface_TSymlink exampleEnv]"
    by (simp add: exampleEnv_def)
  have sink: "True \<longrightarrow> (\<forall>h v. Emit exampleEnv h v = None)"
    by (simp add: exampleEnv_def)
  note T = ftypeOf_total_unrecognized_is_zero_value [where E = exampleEnv and t = 9
      and enc = "\<lambda>c. c" and link = "exampleEntry ''k'' ''QmK'' 30 9" and stream = True
      and path = "''b''" and results = "[exampleEntry ''k'' ''QmK'' 30 9]" and s = initState]
  have raw: "ftypeOf exampleEnv 9 = TRaw"
    by (rule mp [OF conjunct1 [OF conjunct2 [OF T]] codes])
  have named: "ftypeOf exampleEnv (iface_TFile exampleEnv) = TFile
      \<and> ftypeOf exampleEnv (iface_TDirectory exampleEnv) = TDirectory
      \<and> ftypeOf exampleEnv (iface_TSymlink exampleEnv) = TSymlink"
    by (rule mp [OF conjunct1 [OF conjunct2 [OF conjunct2 [OF T]]] d])
  have ok: "snd (forLinks exampleEnv (\<lambda>c. c) True ''b''
      [exampleEntry ''k'' ''QmK'' 30 9] initState) = None"
    by (rule mp [OF conjunct2 [OF conjunct2 [OF conjunct2 [OF conjunct2 [OF T]]]] sink])
  from codes raw d named ok show ?thesis
    by simp
qed

subsection \<open>Group labels and header rows\<close>

text \<open>
  C5, as stated, asks for a label line and a header row whenever more than one path is
  requested and headers are on. The text encoder of a streaming request renders with
  \<^verbatim>\<open>ignoreBreaks\<close> set: for two requested paths with headers on it writes the entry row and
  nothing before it.
\<close>

theorem text_encoder_stream_no_label_counterexample:
  "length (Arguments (exampleRequest [''a'', ''b''] True True)) > 1
   \<and> optBool (exampleRequest [''a'', ''b''] True True) lsHeadersOptionNameTime
   \<and> LsCmd_Encoders_Text exampleEnv (exampleRequest [''a'', ''b''] True True)
        \<lparr>Objects = [\<lparr>ObjectHash = ''a'', Links = [lsLinkOf exampleEnv (\<lambda>c. c)
                      (exampleEntry ''z'' ''QmZ'' 1 1)]\<rparr>]\<rparr>
      = ''QmZ'' @ TAB @ ''1'' @ TAB @ ''z'' @ NL"
  by code_simp

text \<open>
  C5, amended. With \<^verbatim>\<open>ignoreBreaks\<close> off, the bytes written for a value are, object by
  object, a group head followed by the rows of the object's links, where the head depends
  only on the object's key and on the key before it (the key passed in for the first object,
  the key of the preceding object otherwise). When the two keys are equal the head is empty.
  When they differ, and more than one path is requested, it starts with the line of the key
  and a colon, after a blank line unless the key before is the empty string; and when headers
  are requested the header row (with the size column when size display is on) follows
  immediately. With \<^verbatim>\<open>ignoreBreaks\<close> on, only the rows are written and the key passed in is
  returned. What reaches the writer is the tabwriter's rendering of these bytes.
\<close>

theorem tabularWritten_group_breaks:
  "tabularWritten E req out key False =
     (concat (map (\<lambda>(prev, object).
        (if ObjectHash object \<noteq> prev
         then (if 1 < length (Arguments req)
               then (if prev \<noteq> [] then NL else []) @ ObjectHash object @ '':'' @ NL
               else [])
              @ (if optBool req lsHeadersOptionNameTime
                 then (if optBool req lsSizeOptionName
                       then ''Hash'' @ TAB @ ''Size'' @ TAB @ ''Name''
                       else ''Hash'' @ TAB @ ''Name'') @ NL
                 else [])
         else [])
        @ concat (map (fprintLink E (optBool req lsSizeOptionName)) (Links object)))
        (zip (key # map ObjectHash (Objects out)) (Objects out))),
      last (key # map ObjectHash (Objects out)))
   \<and> tabularWritten E req out key True =
     (concat (map (\<lambda>object. concat (map (fprintLink E (optBool req lsSizeOptionName))
                 (Links object))) (Objects out)),
      key)
   \<and> tabularOutput E req out key ignoreBreaks =
     (Tabwriter E (minTabWidth req) (fst (tabularWritten E req out key ignoreBreaks)),
      snd (tabularWritten E req out key ignoreBreaks))"
proof -
  have 1: "tabularWritten E req out key False =
     (concat (map (\<lambda>(prev, object).
        (if ObjectHash object \<noteq> prev
         then (if 1 < length (Arguments req)
               then (if prev \<noteq> [] then NL else []) @ ObjectHash object @ '':'' @ NL
               else [])
              @ (if optBool req lsHeadersOptionNameTime
                 then (if optBool req lsSizeOptionName
                       then ''Hash'' @ TAB @ ''Size'' @ TAB @ ''Name''
                       else ''Hash'' @ TAB @ ''Name'') @ NL
                 else [])
         else [])
        @ concat (map (fprintLink E (optBool req lsSizeOptionName)) (Links object)))
        (zip (key # map ObjectHash (Objects out)) (Objects out))),
      last (key # map ObjectHash (Objects out)))"
    unfolding tabularWritten_def Let_def by (rule forObjects_breaks)
  have 2: "tabularWritten E req out key True =
     (concat (map (\<lambda>object. concat (map (fprintLink E (optBool req lsSizeOptionName))
                 (Links object))) (Objects out)),
      key)"
    unfolding tabularWritten_def Let_def by (rule forObjects_ignoreBreaks)
  have 3: "tabularOutput E req out key ignoreBreaks =
     (Tabwriter E (minTabWidth req) (fst (tabularWritten E req out key ignoreBreaks)),
      snd (tabularWritten E req out key ignoreBreaks))"
    by (simp add: tabularOutput_def split_def Let_def)
  from 1 2 3 show ?thesis
    by (intro conjI)
qed

theorem tabularWritten_group_breaks_witness:
  "tabularWritten exampleEnv (exampleRequest [''a'', ''b''] True False)
     \<lparr>Objects = [\<lparr>ObjectHash = ''a'', Links = [lsLinkOf exampleEnv (\<lambda>c. c)
                    (exampleEntry ''z'' ''QmZ'' 1 1)]\<rparr>,
                 \<lparr>ObjectHash = ''b'', Links = [lsLinkOf exampleEnv (\<lambda>c. c)
                    (exampleEntry ''m'' ''QmM'' 2 2)]\<rparr>]\<rparr> [] False
   = (''a:'' @ NL @ ''Hash'' @ TAB @ ''Size'' @ TAB @ ''Name'' @ NL
        @ ''QmZ'' @ TAB @ ''1'' @ TAB @ ''z'' @ NL
      @ NL @ ''b:'' @ NL @ ''Hash'' @ TAB @ ''Size'' @ TAB @ ''Name'' @ NL
        @ ''QmM'' @ TAB @ ''-'' @ TAB @ ''m/'' @ NL,
      ''b'')"
  unfolding conjunct1 [OF tabularWritten_group_breaks] by code_simp

subsection \<open>The key returned by tabularOutput\<close>

text \<open>
  C9, as stated, holds for every flag setting. With \<^verbatim>\<open>ignoreBreaks\<close> set, a value with one
  group \<^verbatim>\<open>a\<close>, rendered after the empty key, returns the empty key and not \<^verbatim>\<open>a\<close>.
\<close>

theorem ignoreBreaks_returns_prior_key_counterexample:
  "Objects \<lparr>Objects = [\<lparr>ObjectHash = ''a'', Links = []\<rparr>]\<rparr> \<noteq> []
   \<and> snd (tabularOutput exampleEnv (exampleRequest [''a'', ''b''] False True)
          \<lparr>Objects = [\<lparr>ObjectHash = ''a'', Links = []\<rparr>]\<rparr> [] True) = []"
  by code_simp

text \<open>
  C9, amended. With \<^verbatim>\<open>ignoreBreaks\<close> off, \<^verbatim>\<open>tabularOutput\<close> returns the key of the last
  object of the value, or the key passed in when the value has no object; with
  \<^verbatim>\<open>ignoreBreaks\<close> on it returns the key passed in. In either case, rendering a sequence of
  values one by one, each with the key the rendering before it returned, writes to the
  tabwriters the same bytes, and ends with the same key, as rendering the one value that
  holds all their objects.
\<close>

theorem tabularOutput_returns_last_key:
  "snd (tabularOutput E req out key ignoreBreaks)
     = (if ignoreBreaks \<or> Objects out = [] then key else ObjectHash (last (Objects out)))
   \<and> foldl (\<lambda>(text, key) out.
              (text @ fst (tabularWritten E req out key ignoreBreaks),
               snd (tabularOutput E req out key ignoreBreaks)))
       ([], key) outs
     = tabularWritten E req \<lparr>Objects = concat (map Objects outs)\<rparr> key ignoreBreaks"
proof -
  have 1: "snd (tabularOutput E req out key ignoreBreaks)
     = (if ignoreBreaks \<or> Objects out = [] then key else ObjectHash (last (Objects out)))"
  proof (cases ignoreBreaks)
    case True
    then show ?thesis
      by (simp add: snd_tabularOutput tabularWritten_def forObjects_ignoreBreaks Let_def)
  next
    case False
    then show ?thesis
      by (simp add: snd_tabularOutput tabularWritten_def forObjects_breaks last_map Let_def)
  qed
  have 2: "foldl (\<lambda>(text, key) out.
              (text @ fst (tabularWritten E req out key ignoreBreaks),
               snd (tabularOutput E req out key ignoreBreaks)))
       ([], key) outs
     = tabularWritten E req \<lparr>Objects = concat (map Objects outs)\<rparr> key ignoreBreaks"
    by (simp add: snd_tabularOutput foldl_tabularWritten)
  from 1 2 show ?thesis
    by (rule conjI)
qed

theorem tabularOutput_returns_last_key_witness:
  "snd (tabularOutput exampleEnv (exampleRequest [''a'', ''b''] False True)
          \<lparr>Objects = [\<lparr>ObjectHash = ''a'', Links = []\<rparr>]\<rparr> [] False) = ''a''"
  unfolding conjunct1 [OF tabularOutput_returns_last_key] by simp

subsection \<open>Entry rows\<close>

text \<open>
  C4, as stated, gives the dash and the slash to directories and directory shards and denies
  the slash to every other kind. A link of kind metadata is neither a directory nor a
  directory shard, and its row has the dash in the size column and the slash after the name.
\<close>

theorem metadata_rendered_as_directory_counterexample:
  "Type \<lparr>Name = ''meta'', Hash = ''QmMeta'', Size = 7, Type = TMetadata, Target = [],
          Mode = 0, ModTime = 0\<rparr> \<noteq> TDirectory
   \<and> Type \<lparr>Name = ''meta'', Hash = ''QmMeta'', Size = 7, Type = TMetadata, Target = [],
          Mode = 0, ModTime = 0\<rparr> \<noteq> THAMTShard
   \<and> fprintLink exampleEnv True
        \<lparr>Name = ''meta'', Hash = ''QmMeta'', Size = 7, Type = TMetadata, Target = [],
          Mode = 0, ModTime = 0\<rparr>
      = ''QmMeta'' @ TAB @ ''-'' @ TAB @ ''meta/'' @ NL"
  by code_simp

text \<open>
  C4, amended. The row of a link of kind directory, HAMT shard or metadata has its hash,
  a dash in the size column when size display is on, and its escaped name followed by a
  slash. The row of a link of any other kind (raw, file, symlink) has its hash, the decimal
  digits of its size when size display is on, and its escaped name with nothing after it.
  The digits denote the size. The rows of an object are the rows of its links in order.
\<close>

theorem fprintLink_by_kind:
  "(Type link \<in> {TDirectory, THAMTShard, TMetadata} \<longrightarrow>
      fprintLink E size' link
        = Hash link @ TAB @ (if size' then ''-'' @ TAB else [])
            @ EscNonPrint E (Name link) @ ''/'' @ NL)
   \<and> (Type link \<in> {TRaw, TFile, TSymlink} \<longrightarrow>
      fprintLink E size' link
        = Hash link @ TAB @ (if size' then FormatUint (unat (Size link)) @ TAB else [])
            @ EscNonPrint E (Name link) @ NL)
   \<and> foldl (\<lambda>a c. 10 * a + (of_char c - 48)) 0 (FormatUint (unat (Size link))) = unat (Size link)
   \<and> tabularWritten E req \<lparr>Objects = [\<lparr>ObjectHash = key, Links = links\<rparr>]\<rparr> key ignoreBreaks
        = (concat (map (fprintLink E (optBool req lsSizeOptionName)) links), key)"
proof -
  have 1: "Type link \<in> {TDirectory, THAMTShard, TMetadata} \<longrightarrow>
      fprintLink E size' link
        = Hash link @ TAB @ (if size' then ''-'' @ TAB else [])
            @ EscNonPrint E (Name link) @ ''/'' @ NL"
    by (auto simp: fprintLink_def)
  have 2: "Type link \<in> {TRaw, TFile, TSymlink} \<longrightarrow>
      fprintLink E size' link
        = Hash link @ TAB @ (if size' then FormatUint (unat (Size link)) @ TAB else [])
            @ EscNonPrint E (Name link) @ NL"
    by (auto simp: fprintLink_def)
  have 3: "foldl (\<lambda>a c. 10 * a + (of_char c - 48)) 0 (FormatUint (unat (Size link)))
      = unat (Size link)"
    by (rule FormatUint_value)
  have 4: "tabularWritten E req \<lparr>Objects = [\<lparr>ObjectHash = key, Links = links\<rparr>]\<rparr> key ignoreBreaks
        = (concat (map (fprintLink E (optBool req lsSizeOptionName)) links), key)"
    by (simp add: tabularWritten_def Let_def)
  from 1 2 3 4 show ?thesis
    by (intro conjI)
qed

theorem fprintLink_by_kind_witness:
  "Type (lsLinkOf exampleEnv (\<lambda>c. c) (exampleEntry ''m'' ''QmM'' 2 2))
      \<in> {TDirectory, THAMTShard, TMetadata}
   \<and> fprintLink exampleEnv True (lsLinkOf exampleEnv (\<lambda>c. c) (exampleEntry ''m'' ''QmM'' 2 2))
      = ''QmM'' @ TAB @ ''-'' @ TAB @ ''m/'' @ NL
   \<and> Type (lsLinkOf exampleEnv (\<lambda>c. c) (exampleEntry ''k'' ''QmK'' 30 9))
      \<in> {TRaw, TFile, TSymlink}
   \<and> fprintLink exampleEnv True (lsLinkOf exampleEnv (\<lambda>c. c) (exampleEntry ''k'' ''QmK'' 30 9))
      = ''QmK'' @ TAB @ ''30'' @ TAB @ ''k'' @ NL"
proof -
  let ?m = "lsLinkOf exampleEnv (\<lambda>c. c) (exampleEntry ''m'' ''QmM'' 2 2)"
  let ?k = "lsLinkOf exampleEnv (\<lambda>c. c) (exampleEntry ''k'' ''QmK'' 30 9)"
  have tm: "Type ?m \<in> {TDirectory, THAMTShard, TMetadata}"
    by code_simp
  have tk: "Type ?k \<in> {TRaw, TFile, TSymlink}"
    by code_simp
  have "fprintLink exampleEnv True ?m
      = Hash ?m @ TAB @ (if True then ''-'' @ TAB else []) @ EscNonPrint exampleEnv (Name ?m) @ ''/'' @ NL"
    by (rule mp [OF conjunct1 [OF fprintLink_by_kind] tm])
  also have "\<dots> = ''QmM'' @ TAB @ ''-'' @ TAB @ ''m/'' @ NL"
    by code_simp
  finally have rm: "fprintLink exampleEnv True ?m = ''QmM'' @ TAB @ ''-'' @ TAB @ ''m/'' @ NL" .
  have "fprintLink exampleEnv True ?k
      = Hash ?k @ TAB @ (if True then FormatUint (unat (Size ?k)) @ TAB else [])
          @ EscNonPrint exampleEnv (Name ?k) @ NL"
    by (rule mp [OF conjunct1 [OF conjunct2 [OF fprintLink_by_kind]] tk])
  also have "\<dots> = ''QmK'' @ TAB @ ''30'' @ TAB @ ''k'' @ NL"
    by code_simp
  finally have rk: "fprintLink exampleEnv True ?k = ''QmK'' @ TAB @ ''30'' @ TAB @ ''k'' @ NL" .
  from tm rm tk rk show ?thesis
    by (intro conjI)
qed

subsection \<open>Mode and modification time are not rendered\<close>

text \<open>
  C10. Two values that have the same keys and, link by link, the same name, hash, size, type
  and target, and so differ at most in the mode and the modification time of their links,
  are rendered alike: for the same request, the same key passed in and the same
  \<^verbatim>\<open>ignoreBreaks\<close>, \<^verbatim>\<open>tabularOutput\<close> passes the same bytes to the writer and returns the same
  key. Both fields are fields of \<^verbatim>\<open>LsLink\<close>, so the values themselves differ.
\<close>

theorem tabularOutput_ignores_mode_and_time:
  assumes "list_all2 (\<lambda>a b. ObjectHash a = ObjectHash b
             \<and> list_all2 (\<lambda>l m. Name l = Name m \<and> Hash l = Hash m \<and> Size l = Size m
                  \<and> Type l = Type m \<and> Target l = Target m) (Links a) (Links b))
             (Objects out1) (Objects out2)"
  shows "tabularOutput E req out1 key ignoreBreaks = tabularOutput E req out2 key ignoreBreaks"
  by (simp add: tabularOutput_def tabularWritten_def Let_def forObjects_cong [OF assms])

theorem tabularOutput_ignores_mode_and_time_witness:
  "\<lparr>Objects = [\<lparr>ObjectHash = ''a'', Links =
        [\<lparr>Name = ''z'', Hash = ''QmZ'', Size = 1, Type = TFile, Target = [],
          Mode = 420, ModTime = 1700000000\<rparr>]\<rparr>]\<rparr>
     \<noteq> \<lparr>Objects = [\<lparr>ObjectHash = ''a'', Links =
        [\<lparr>Name = ''z'', Hash = ''QmZ'', Size = 1, Type = TFile, Target = [],
          Mode = 493, ModTime = 0\<rparr>]\<rparr>]\<rparr>
   \<and> tabularOutput exampleEnv (exampleRequest [''a''] True False)
        \<lparr>Objects = [\<lparr>ObjectHash = ''a'', Links =
          [\<lparr>Name = ''z'', Hash = ''QmZ'', Size = 1, Type = TFile, Target = [],
            Mode = 420, ModTime = 1700000000\<rparr>]\<rparr>]\<rparr> [] False
     = tabularOutput exampleEnv (exampleRequest [''a''] True False)
        \<lparr>Objects = [\<lparr>ObjectHash = ''a'', Links =
          [\<lparr>Name = ''z'', Hash = ''QmZ'', Size = 1, Type = TFile, Target = [],
            Mode = 493, ModTime = 0\<rparr>]\<rparr>]\<rparr> [] False"
proof -
  let ?l1 = "\<lparr>Name = ''z'', Hash = ''QmZ'', Size = 1, Type = TFile, Target = [],
          Mode = 420, ModTime = 1700000000\<rparr>"
  let ?l2 = "\<lparr>Name = ''z'', Hash = ''QmZ'', Size = 1, Type = TFile, Target = [],
          Mode = 493, ModTime = 0\<rparr>"
  let ?o1 = "\<lparr>Objects = [\<lparr>ObjectHash = ''a'', Links = [?l1]\<rparr>]\<rparr>"
  let ?o2 = "\<lparr>Objects = [\<lparr>ObjectHash = ''a'', Links = [?l2]\<rparr>]\<rparr>"
  have ne: "?o1 \<noteq> ?o2"
    by simp
  have rel: "list_all2 (\<lambda>a b. ObjectHash a = ObjectHash b
             \<and> list_all2 (\<lambda>l m. Name l = Name m \<and> Hash l = Hash m \<and> Size l = Size m
                  \<and> Type l = Type m \<and> Target l = Target m) (Links a) (Links b))
             (Objects ?o1) (Objects ?o2)"
    by simp
  from ne tabularOutput_ignores_mode_and_time [OF rel] show ?thesis
    by (rule conjI)
qed

subsection \<open>A single empty directory\<close>

text \<open>
  C6, as stated, has a group label line in the rendering of a single path that lists an
  empty directory. For the one path \<^verbatim>\<open>e\<close>, with headers on, the run emits one object with
  no links, and \<^verbatim>\<open>PostRun\<close> writes the header row and nothing else: no label line.
\<close>

theorem single_empty_directory_no_label_counterexample:
  "length (Arguments (exampleRequest [''e''] True False)) = 1
   \<and> emitted (fst (LsCmd_Run exampleEnv (exampleRequest [''e''] True False)))
        = [\<lparr>Objects = [\<lparr>ObjectHash = ''e'', Links = []\<rparr>]\<rparr>]
   \<and> LsCmd_PostRun exampleEnv (exampleRequest [''e''] True False)
        (emitted (fst (LsCmd_Run exampleEnv (exampleRequest [''e''] True False))), None)
      = (''Hash'' @ TAB @ ''Size'' @ TAB @ ''Name'' @ NL, None)"
  by code_simp

text \<open>
  C6, amended. When the only requested path parses and its traversal sends no entry and
  ends without an error, a run without streaming emits one value with one object, keyed by
  the path string and with no links. \<^verbatim>\<open>PostRun\<close>, for the request with that one argument,
  writes for it no group label (a label needs more than one requested path) and no entry
  row: only the header row, when headers are on and the path string is not empty, aligned
  with minimal cell width 1.
\<close>

theorem single_empty_directory_rendering:
  assumes "GetApi E = Inr ls"
    and "ParseBodyArgs E req = Inr [p]"
    and "GetCidEncoder E (req\<lparr>Arguments := [p]\<rparr>) = Inr enc"
    and "\<not> optBool req lsStreamOptionName"
    and "PathOrCidPath E p = Inr pth"
    and "ls pth (optBool req lsSizeOptionName \<or> optBool req lsResolveTypeOptionName) = ([], None)"
  shows "emitted (fst (LsCmd_Run E req)) = [\<lparr>Objects = [\<lparr>ObjectHash = p, Links = []\<rparr>]\<rparr>]
       \<and> LsCmd_PostRun E (req\<lparr>Arguments := [p]\<rparr>) (emitted (fst (LsCmd_Run E req)), None)
          = (Tabwriter E 1
               (if optBool req lsHeadersOptionNameTime \<and> p \<noteq> []
                then (if optBool req lsSizeOptionName
                      then ''Hash'' @ TAB @ ''Size'' @ TAB @ ''Name''
                      else ''Hash'' @ TAB @ ''Name'') @ NL
                else []),
             None)"
proof -
  define rs where "rs = optBool req lsSizeOptionName"
  define rt where "rt = optBool req lsResolveTypeOptionName"
  define s0 where "s0 = initState\<lparr>outputObjects := replicate (length [p]) zeroLsObject\<rparr>"
  define u where "u = \<lparr>Objects = [\<lparr>ObjectHash = p, Links = []\<rparr>]\<rparr>"
  define req' where "req' = req\<lparr>Arguments := [p]\<rparr>"
  have ls: "ls pth (rs \<or> rt) = ([], None)"
    using assms(6) by (simp only: rs_def rt_def)
  have ok: "\<forall>q\<in>set [p]. \<exists>pth. PathOrCidPath E q = Inr pth \<and> snd (ls pth (rs \<or> rt)) = None"
    by (simp add: assms(5) ls)
  have d0: "drop 0 [p] = [p] @ []"
    by simp
  have len: "length (outputObjects s0) = length [p]"
    by (simp add: s0_def)
  from forPaths_batch_ok [where E = E and ls = ls and rs = rs and rt = rt and ps = "[p]"
      and k = 0 and paths = "[p]" and s = s0 and enc = enc and post = "[]", OF ok d0 len]
  obtain s' where r: "forPaths E ls enc False rs rt [p] (enumerate 0 [p]) s0 = (s', None)"
    and e: "emitted s' = emitted s0"
    and o: "outputObjects s' = take 0 (outputObjects s0)
                @ map (\<lambda>p. \<lparr>ObjectHash = p, Links = SortFunc byName (map (lsLinkOf E enc)
                         (fst (ls (projr (PathOrCidPath E p)) (rs \<or> rt))))\<rparr>) [p]
                @ drop (0 + length [p]) (outputObjects s0)"
    by (elim exE conjE)
  have o': "outputObjects s' = [\<lparr>ObjectHash = p, Links = []\<rparr>]"
    by (simp add: o assms(5) ls s0_def)
  have e': "emitted s' = []"
    by (simp add: e s0_def initState_def)
  have run: "LsCmd_Run E req = done' E False s'"
    using assms(1-4) r by (simp add: LsCmd_Run_def rs_def rt_def s0_def)
  have em: "emitted (fst (LsCmd_Run E req)) = [u]"
    by (simp add: run done'_def emit_def e' o' u_def)
  have opts: "optBool req' name = optBool req name" for name
    by (simp add: req'_def optBool_def)
  have args: "Arguments req' = [p]"
    by (simp add: req'_def)
  have w: "tabularWritten E req' u [] False
      = ((if optBool req lsHeadersOptionNameTime \<and> p \<noteq> []
          then (if optBool req lsSizeOptionName
                then ''Hash'' @ TAB @ ''Size'' @ TAB @ ''Name''
                else ''Hash'' @ TAB @ ''Name'') @ NL
          else []),
         if p \<noteq> [] then p else [])"
    by (simp add: tabularWritten_def Let_def opts u_def args)
  have m: "minTabWidth req' = 1"
    using assms(4) by (simp add: minTabWidth_def opts)
  have post: "LsCmd_PostRun E req' ([u], None)
      = (Tabwriter E 1
           (if optBool req lsHeadersOptionNameTime \<and> p \<noteq> []
            then (if optBool req lsSizeOptionName
                  then ''Hash'' @ TAB @ ''Size'' @ TAB @ ''Name''
                  else ''Hash'' @ TAB @ ''Name'') @ NL
            else []),
         None)"
    by (simp add: LsCmd_PostRun_def tabularOutput_def w m)
  from em post show ?thesis
    unfolding u_def req'_def by simp
qed

theorem single_empty_directory_rendering_witness:
  "GetApi exampleEnv = Inr exampleLs
   \<and> ParseBodyArgs exampleEnv (exampleRequest [''e''] True False) = Inr [''e'']
   \<and> \<not> optBool (exampleRequest [''e''] True False) lsStreamOptionName
   \<and> PathOrCidPath exampleEnv ''e'' = Inr ''/ipfs/e''
   \<and> emitted (fst (LsCmd_Run exampleEnv (exampleRequest [''e''] True False)))
        = [\<lparr>Objects = [\<lparr>ObjectHash = ''e'', Links = []\<rparr>]\<rparr>]"
proof -
  let ?req = "exampleRequest [''e''] True False"
  have h1: "GetApi exampleEnv = Inr exampleLs"
    by (simp add: exampleEnv_def)
  have h2: "ParseBodyArgs exampleEnv ?req = Inr [''e'']"
    by (simp add: exampleEnv_def exampleRequest_def)
  have h3: "GetCidEncoder exampleEnv (?req\<lparr>Arguments := [''e'']\<rparr>) = Inr (\<lambda>c. c)"
    by (simp add: exampleEnv_def)
  have h4: "\<not> optBool ?req lsStreamOptionName"
    by (simp add: example_defs)
  have h5: "PathOrCidPath exampleEnv ''e'' = Inr ''/ipfs/e''"
    by (simp add: exampleEnv_def)
  have rc: "(optBool ?req lsSizeOptionName \<or> optBool ?req lsResolveTypeOptionName) = True"
    by (simp add: example_defs)
  have h6: "exampleLs ''/ipfs/e'' (optBool ?req lsSizeOptionName \<or> optBool ?req lsResolveTypeOptionName)
      = ([], None)"
    unfolding rc by (simp add: exampleLs_def)
  have "emitted (fst (LsCmd_Run exampleEnv ?req)) = [\<lparr>Objects = [\<lparr>ObjectHash = ''e'', Links = []\<rparr>]\<rparr>]"
    by (rule conjunct1 [OF single_empty_directory_rendering [OF h1 h2 h3 h4 h5 h6]])
  with h1 h2 h4 h5 show ?thesis
    by (intro conjI)
qed

end
